theory Spec2Isabelle
  imports Main "HOL-Library.Sublist" "HOL-Library.Word"
begin

unbundle bit_operations_syntax

section \<open>Build definitions and ConveyorPacker dispatch\<close>

text \<open>
  A Go \<^verbatim>\<open>map[string]string\<close> that may be nil is an optional partial map; reading a key of
  a nil map, or a key that is absent, yields the empty string.
\<close>

type_synonym gomap = "(string \<rightharpoonup> string) option"

definition mapget :: "gomap \<Rightarrow> string \<Rightarrow> string" where
  "mapget m k = (case m of None \<Rightarrow> [] | Some f \<Rightarrow> (case f k of None \<Rightarrow> [] | Some v \<Rightarrow> v))"

record FileTransfer =
  Src :: string
  Dst :: string

record Files =
  Args :: string
  Files :: "FileTransfer list"

record Definition =
  Header :: gomap
  Labels :: "(string \<times> string) list"
  Pre :: string
  Setup :: string
  Post :: string
  Test :: string
  BuildFiles :: "Files list"
  CustomData :: "(string \<times> string) list"

text \<open>The zero value \<^verbatim>\<open>types.Definition{}\<close>: nil header, empty scripts, no directives.\<close>

definition zero_Definition :: Definition where
  "zero_Definition = \<lparr>Header = None, Labels = [], Pre = [], Setup = [], Post = [], Test = [],
     BuildFiles = [], CustomData = []\<rparr>"

datatype ConveyorPacker =
    LibraryConveyorPacker bool
  | ShubConveyorPacker
  | OCIConveyorPacker
  | BusyBoxConveyorPacker
  | DebootstrapConveyorPacker
  | ArchConveyorPacker
  | LocalConveyorPacker
  | YumConveyorPacker
  | ZypperConveyorPacker
  | ScratchConveyorPacker

text \<open>\<^verbatim>\<open>getcp\<close>: the switch over \<^verbatim>\<open>def.Header["bootstrap"]\<close>, in the order of the source.\<close>

definition getcp :: "Definition \<Rightarrow> string \<Rightarrow> string \<Rightarrow> bool \<Rightarrow> string + ConveyorPacker" where
  "getcp def libraryURL authToken unauthenticatedBuild =
    (let k = mapget (Header def) ''bootstrap'' in
     if k = ''library'' then Inr (LibraryConveyorPacker unauthenticatedBuild)
     else if k = ''shub'' then Inr ShubConveyorPacker
     else if k = ''docker'' \<or> k = ''docker-archive'' \<or> k = ''docker-daemon''
             \<or> k = ''oci'' \<or> k = ''oci-archive'' then Inr OCIConveyorPacker
     else if k = ''busybox'' then Inr BusyBoxConveyorPacker
     else if k = ''debootstrap'' then Inr DebootstrapConveyorPacker
     else if k = ''arch'' then Inr ArchConveyorPacker
     else if k = ''localimage'' then Inr LocalConveyorPacker
     else if k = ''yum'' then Inr YumConveyorPacker
     else if k = ''zypper'' then Inr ZypperConveyorPacker
     else if k = ''scratch'' then Inr ScratchConveyorPacker
     else if k = [] then Inl ''no bootstrap specification found''
     else Inl (''invalid build source '' @ k))"

text \<open>The keys the spec lists as supported, and the variant it expects for each.\<close>

definition bootstrap_keys :: "string list" where
  "bootstrap_keys = [''library'', ''shub'', ''docker'', ''docker-archive'', ''docker-daemon'',
     ''oci'', ''oci-archive'', ''busybox'', ''debootstrap'', ''arch'', ''localimage'', ''yum'',
     ''zypper'', ''scratch'']"

definition variant_table :: "bool \<Rightarrow> (string \<times> ConveyorPacker) list" where
  "variant_table u =
    [(''library'', LibraryConveyorPacker u), (''shub'', ShubConveyorPacker),
     (''docker'', OCIConveyorPacker), (''docker-archive'', OCIConveyorPacker),
     (''docker-daemon'', OCIConveyorPacker), (''oci'', OCIConveyorPacker),
     (''oci-archive'', OCIConveyorPacker), (''busybox'', BusyBoxConveyorPacker),
     (''debootstrap'', DebootstrapConveyorPacker), (''arch'', ArchConveyorPacker),
     (''localimage'', LocalConveyorPacker), (''yum'', YumConveyorPacker),
     (''zypper'', ZypperConveyorPacker), (''scratch'', ScratchConveyorPacker)]"

section \<open>The privileged RPC server: Chroot\<close>

text \<open>
  The system calls \<^verbatim>\<open>Methods.Chroot\<close> issues. \<^verbatim>\<open>SysFchdir\<close> is
  \<^verbatim>\<open>syscall.Fchdir(int(oldroot.Fd()))\<close> and \<^verbatim>\<open>SysClose\<close> the deferred
  \<^verbatim>\<open>oldroot.Close()\<close>; both act on the descriptor that \<^verbatim>\<open>os.Open("/")\<close> returned.
  Mount and unmount flags are the machine words of Go's \<^verbatim>\<open>syscall\<close> package on Linux.
\<close>

type_synonym flags = "64 word"

definition MS_RDONLY :: flags where "MS_RDONLY = 0x1"
definition MS_REC :: flags where "MS_REC = 0x4000"
definition MS_SLAVE :: flags where "MS_SLAVE = 0x80000"
definition MNT_DETACH :: flags where "MNT_DETACH = 0x2"

datatype sys_call =
    SysOpen string
  | SysChdir string
  | SysPivotRoot string string
  | SysFchdir
  | SysMount string string string flags string
  | SysUnmount string flags
  | SysClose

text \<open>
  The operating system is a parameter: given the calls made so far and the next call, it
  answers with an error text or with success. \<open>sys\<close> issues one call and records it.
\<close>

type_synonym sys_env = "sys_call list \<Rightarrow> sys_call \<Rightarrow> string option"

definition sys :: "sys_env \<Rightarrow> sys_call \<Rightarrow> sys_call list \<Rightarrow> string option \<times> sys_call list" where
  "sys env c tr = (env tr c, tr @ [c])"

text \<open>The body of \<^verbatim>\<open>Chroot\<close> after the root directory has been opened.\<close>

definition Chroot_opened :: "sys_env \<Rightarrow> string \<Rightarrow> sys_call list \<Rightarrow> string option \<times> sys_call list" where
  "Chroot_opened env root tr1 =
    (case sys env (SysChdir root) tr1 of
       (Some e, tr2) \<Rightarrow> (Some (''failed to change directory to '' @ root), tr2)
     | (None, tr2) \<Rightarrow>
    (case sys env (SysPivotRoot ''.'' ''.'') tr2 of
       (Some e, tr3) \<Rightarrow> (Some (''pivot_root '' @ root @ '': '' @ e), tr3)
     | (None, tr3) \<Rightarrow>
    (case sys env SysFchdir tr3 of
       (Some e, tr4) \<Rightarrow> (Some (''failed to change directory to old root: '' @ e), tr4)
     | (None, tr4) \<Rightarrow>
    (case sys env (SysMount [] ''.'' [] (MS_SLAVE OR MS_REC) []) tr4 of
       (Some e, tr5) \<Rightarrow>
         (Some (''failed to apply slave mount propagation for host / directory: '' @ e), tr5)
     | (None, tr5) \<Rightarrow>
    (case sys env (SysUnmount ''.'' MNT_DETACH) tr5 of
       (Some e, tr6) \<Rightarrow> (Some (''unmount pivot_root dir '' @ e), tr6)
     | (None, tr6) \<Rightarrow>
    (case sys env (SysChdir ''/'') tr6 of
       (Some e, tr7) \<Rightarrow> (Some (''chdir / '' @ e), tr7)
     | (None, tr7) \<Rightarrow> (None, tr7)))))))"

text \<open>
  \<^verbatim>\<open>Chroot\<close>: if the open fails nothing is deferred; otherwise the deferred close runs
  after the body, whatever the body returns.
\<close>

definition Chroot :: "sys_env \<Rightarrow> string \<Rightarrow> string option \<times> sys_call list" where
  "Chroot env root =
    (case sys env (SysOpen ''/'') [] of
       (Some e, tr1) \<Rightarrow> (Some (''failed to open host root directory: '' @ e), tr1)
     | (None, tr1) \<Rightarrow>
         (case Chroot_opened env root tr1 of (r, tr) \<Rightarrow> (r, tr @ [SysClose])))"

text \<open>The seven steps of the source in program order, and the error each one reports.\<close>

definition chroot_steps :: "string \<Rightarrow> sys_call list" where
  "chroot_steps root =
    [SysOpen ''/'', SysChdir root, SysPivotRoot ''.'' ''.'', SysFchdir,
     SysMount [] ''.'' [] (MS_SLAVE OR MS_REC) [], SysUnmount ''.'' MNT_DETACH, SysChdir ''/'']"

definition chroot_error :: "string \<Rightarrow> nat \<Rightarrow> string \<Rightarrow> string" where
  "chroot_error root k e =
    [''failed to open host root directory: '' @ e,
     ''failed to change directory to '' @ root,
     ''pivot_root '' @ root @ '': '' @ e,
     ''failed to change directory to old root: '' @ e,
     ''failed to apply slave mount propagation for host / directory: '' @ e,
     ''unmount pivot_root dir '' @ e,
     ''chdir / '' @ e] ! k"

text \<open>The steps as the spec lists them (it does not mention the \<^verbatim>\<open>fchdir\<close>).\<close>

definition chroot_spec_steps :: "string \<Rightarrow> sys_call list" where
  "chroot_spec_steps root =
    [SysOpen ''/'', SysChdir root, SysPivotRoot ''.'' ''.'',
     SysMount [] ''.'' [] (MS_SLAVE OR MS_REC) [], SysUnmount ''.'' MNT_DETACH, SysChdir ''/'']"

text \<open>Step \<open>k\<close> is the first one the system refuses, with error text \<open>e\<close>.\<close>

definition first_failure :: "sys_env \<Rightarrow> sys_call list \<Rightarrow> nat \<Rightarrow> string \<Rightarrow> bool" where
  "first_failure env steps k e \<longleftrightarrow>
     k < length steps \<and> env (take k steps) (steps ! k) = Some e
     \<and> (\<forall>j < k. env (take j steps) (steps ! j) = None)"

definition no_failure :: "sys_env \<Rightarrow> sys_call list \<Rightarrow> bool" where
  "no_failure env steps \<longleftrightarrow> (\<forall>j < length steps. env (take j steps) (steps ! j) = None)"

section \<open>The OCI bundle materializer for SIF images\<close>

text \<open>
  \<^verbatim>\<open>sif.Fstype\<close> of the SIF library; \<^verbatim>\<open>%v\<close> prints its number.
\<close>

datatype Fstype = FsSquash | FsExt3 | FsImmuObj | FsRaw

fun Fstype_str :: "Fstype \<Rightarrow> string" where
  "Fstype_str FsSquash = ''1''"
| "Fstype_str FsExt3 = ''2''"
| "Fstype_str FsImmuObj = ''3''"
| "Fstype_str FsRaw = ''4''"

record sifBundle =
  imagePath :: string
  bundlePath :: string
  writable :: bool

text \<open>
  What \<^verbatim>\<open>Create\<close> and \<^verbatim>\<open>Delete\<close> call outside themselves: the file, the SIF
  library, the helpers of package \<^verbatim>\<open>tools\<close> and the two system calls. \<^verbatim>\<open>OpenFile\<close>
  carries the image path and whether the flag is \<^verbatim>\<open>O_RDWR\<close>; \<^verbatim>\<open>LoadContainerFp\<close> its
  read-only argument; \<^verbatim>\<open>CreateLoop\<close> the offset and the size as \<^verbatim>\<open>uint64\<close>.
\<close>

datatype oci_call =
    OpenFile string bool
  | LoadContainerFp bool
  | GetPartPrimSys
  | GetFsType
  | CreateBundle string
  | CreateLoop "64 word" "64 word"
  | MountFs string string string flags string
  | UnmountFs string flags
  | CreateOverlay string
  | DeleteOverlay string
  | DeleteBundle string
  | CloseFile

text \<open>
  The surroundings are a parameter: which call fails, given the calls before it; the primary
  partition the image holds (its file-system kind, \<^verbatim>\<open>Fileoff\<close> and \<^verbatim>\<open>Filelen\<close>, which are
  \<^verbatim>\<open>int64\<close> and converted to \<^verbatim>\<open>uint64\<close> bit for bit); the device path
  \<^verbatim>\<open>tools.CreateLoop\<close> returns; and \<^verbatim>\<open>tools.RootFs(p).Path()\<close>.
\<close>

record oci_os =
  fails :: "oci_call list \<Rightarrow> oci_call \<Rightarrow> string option"
  part_fs :: Fstype
  Fileoff :: "64 word"
  Filelen :: "64 word"
  loopdev :: string
  rootfs_path :: "string \<Rightarrow> string"

text \<open>
  The resources the materializer acquires: bundle directories, attached loop devices,
  mounts (source, target) and overlays, with the calls made so far.
\<close>

record oci_state =
  calls :: "oci_call list"
  bundles :: "string set"
  loops :: "string set"
  mounts :: "(string \<times> string) set"
  overlays :: "string set"

text \<open>
  Modelled from the spec: the helpers \<^verbatim>\<open>tools.CreateBundle\<close>, \<^verbatim>\<open>tools.CreateLoop\<close>,
  \<^verbatim>\<open>tools.CreateOverlay\<close>, \<^verbatim>\<open>tools.DeleteOverlay\<close> and \<^verbatim>\<open>tools.DeleteBundle\<close> are
  not among the sources. A successful call creates or removes the resource it names. The
  loop device is attached with the autoclear flag, so it is released when the mount that
  uses it goes away; there is no other way to release it from this file.
\<close>

fun oci_effect :: "oci_os \<Rightarrow> oci_call \<Rightarrow> oci_state \<Rightarrow> oci_state" where
  "oci_effect os (CreateBundle p) st = st\<lparr>bundles := insert p (bundles st)\<rparr>"
| "oci_effect os (CreateLoop off sz) st = st\<lparr>loops := insert (loopdev os) (loops st)\<rparr>"
| "oci_effect os (MountFs src tgt fs fl d) st = st\<lparr>mounts := insert (src, tgt) (mounts st)\<rparr>"
| "oci_effect os (UnmountFs tgt fl) st =
     st\<lparr>loops := {l \<in> loops st. (l, tgt) \<notin> mounts st},
        mounts := {m \<in> mounts st. snd m \<noteq> tgt}\<rparr>"
| "oci_effect os (CreateOverlay p) st = st\<lparr>overlays := insert p (overlays st)\<rparr>"
| "oci_effect os (DeleteOverlay p) st = st\<lparr>overlays := overlays st - {p}\<rparr>"
| "oci_effect os (DeleteBundle p) st = st\<lparr>bundles := bundles st - {p}\<rparr>"
| "oci_effect os c st = st"

text \<open>One call: it is recorded, and takes effect if it does not fail.\<close>

definition oci_do :: "oci_os \<Rightarrow> oci_call \<Rightarrow> oci_state \<Rightarrow> string option \<times> oci_state" where
  "oci_do os c st =
    (let r = fails os (calls st) c; st' = st\<lparr>calls := calls st @ [c]\<rparr>
     in (r, if r = None then oci_effect os c st' else st'))"

text \<open>A call whose result the source ignores.\<close>

definition oci_try :: "oci_os \<Rightarrow> oci_call \<Rightarrow> oci_state \<Rightarrow> oci_state" where
  "oci_try os c st = snd (oci_do os c st)"

text \<open>\<^verbatim>\<open>Create\<close> after the image file has been opened.\<close>

definition Create_opened :: "oci_os \<Rightarrow> sifBundle \<Rightarrow> oci_state \<Rightarrow> string option \<times> oci_state" where
  "Create_opened os s st1 =
    (case oci_do os (LoadContainerFp (\<not> writable s)) st1 of
       (Some e, st2) \<Rightarrow> (Some (''could not load image fp: '' @ e), st2)
     | (None, st2) \<Rightarrow>
    (case oci_do os GetPartPrimSys st2 of
       (Some e, st3) \<Rightarrow> (Some (''could not get primaty partitions: '' @ e), st3)
     | (None, st3) \<Rightarrow>
    (case oci_do os GetFsType st3 of
       (Some e, st4) \<Rightarrow> (Some (''could not get fs type: '' @ e), st4)
     | (None, st4) \<Rightarrow>
    if part_fs os \<noteq> FsSquash
    then (Some (''unsuported image fs type: '' @ Fstype_str (part_fs os)), st4)
    else
    (case oci_do os (CreateBundle (bundlePath s)) st4 of
       (Some e, st5) \<Rightarrow> (Some (''failed to create OCI bundle: '' @ e), st5)
     | (None, st5) \<Rightarrow>
    (case oci_do os (CreateLoop (Fileoff os) (Filelen os)) st5 of
       (Some e, st6) \<Rightarrow>
         (Some (''failed to find loop device: '' @ e),
          oci_try os (DeleteBundle (bundlePath s)) st6)
     | (None, st6) \<Rightarrow>
    (let rootFs = rootfs_path os (bundlePath s) in
    (case oci_do os (MountFs (loopdev os) rootFs ''squashfs'' MS_RDONLY ''errors=remount-ro'') st6 of
       (Some e, st7) \<Rightarrow>
         (Some (''failed to mount SIF partition: '' @ e),
          oci_try os (DeleteBundle (bundlePath s)) st7)
     | (None, st7) \<Rightarrow>
    if writable s then
      (case oci_do os (CreateOverlay (bundlePath s)) st7 of
         (Some e, st8) \<Rightarrow>
           (Some (''failed to create overlay: '' @ e),
            oci_try os (DeleteBundle (bundlePath s))
              (oci_try os (UnmountFs rootFs MNT_DETACH) st8))
       | (None, st8) \<Rightarrow> (None, st8))
    else (None, st7))))))))"

text \<open>\<^verbatim>\<open>sifBundle.Create\<close>; the deferred \<^verbatim>\<open>file.Close()\<close> runs once the open succeeded.\<close>

definition Create :: "oci_os \<Rightarrow> sifBundle \<Rightarrow> oci_state \<Rightarrow> string option \<times> oci_state" where
  "Create os s st =
    (if imagePath s = [] then (Some ''image wasn't set, need one to create bundle'', st)
     else
       (case oci_do os (OpenFile (imagePath s) (writable s)) st of
          (Some e, st1) \<Rightarrow> (Some (''can't open image '' @ imagePath s @ '': '' @ e), st1)
        | (None, st1) \<Rightarrow>
            (case Create_opened os s st1 of (r, st') \<Rightarrow> (r, oci_try os CloseFile st'))))"

text \<open>\<^verbatim>\<open>sifBundle.Delete\<close>.\<close>

definition Delete_rest :: "oci_os \<Rightarrow> sifBundle \<Rightarrow> oci_state \<Rightarrow> string option \<times> oci_state" where
  "Delete_rest os s st =
    (let rootFsDir = rootfs_path os (bundlePath s) in
     case oci_do os (UnmountFs rootFsDir MNT_DETACH) st of
       (Some e, st') \<Rightarrow> (Some (''failed to unmount '' @ rootFsDir @ '': '' @ e), st')
     | (None, st') \<Rightarrow> oci_do os (DeleteBundle (bundlePath s)) st')"

definition Delete :: "oci_os \<Rightarrow> sifBundle \<Rightarrow> oci_state \<Rightarrow> string option \<times> oci_state" where
  "Delete os s st =
    (if writable s then
       (case oci_do os (DeleteOverlay (bundlePath s)) st of
          (Some e, st') \<Rightarrow> (Some (''delete error: '' @ e), st')
        | (None, st') \<Rightarrow> Delete_rest os s st')
     else Delete_rest os s st)"

text \<open>The calls of \<^verbatim>\<open>Delete\<close> in program order, and the error each reports on failure.\<close>

definition delete_steps :: "oci_os \<Rightarrow> sifBundle \<Rightarrow> oci_call list" where
  "delete_steps os s =
    (if writable s then [DeleteOverlay (bundlePath s)] else [])
    @ [UnmountFs (rootfs_path os (bundlePath s)) MNT_DETACH, DeleteBundle (bundlePath s)]"

fun delete_error :: "oci_os \<Rightarrow> oci_call \<Rightarrow> string \<Rightarrow> string" where
  "delete_error os (DeleteOverlay p) e = ''delete error: '' @ e"
| "delete_error os (UnmountFs d fl) e = ''failed to unmount '' @ d @ '': '' @ e"
| "delete_error os c e = e"

text \<open>Running a list of calls one after the other, whatever each returns.\<close>

fun oci_run :: "oci_os \<Rightarrow> oci_call list \<Rightarrow> oci_state \<Rightarrow> oci_state" where
  "oci_run os [] st = st"
| "oci_run os (c # cs) st = oci_run os cs (oci_try os c st)"

text \<open>
  Of a list of calls issued from state \<open>st\<close>: all succeed, or call \<open>k\<close> is the first to
  fail, with error text \<open>e\<close>.
\<close>

definition oci_all_ok :: "oci_os \<Rightarrow> oci_state \<Rightarrow> oci_call list \<Rightarrow> bool" where
  "oci_all_ok os st cs \<longleftrightarrow> (\<forall>j < length cs. fails os (calls st @ take j cs) (cs ! j) = None)"

definition oci_fails_at :: "oci_os \<Rightarrow> oci_state \<Rightarrow> oci_call list \<Rightarrow> nat \<Rightarrow> string \<Rightarrow> bool" where
  "oci_fails_at os st cs k e \<longleftrightarrow>
     k < length cs \<and> fails os (calls st @ take k cs) (cs ! k) = Some e
     \<and> oci_all_ok os st (take k cs)"

text \<open>
  The calls of \<^verbatim>\<open>Create\<close> in program order, the error each reports on failure, and the
  calls the source makes between a failure and its return.
\<close>

definition create_steps :: "oci_os \<Rightarrow> sifBundle \<Rightarrow> oci_call list" where
  "create_steps os s =
    [OpenFile (imagePath s) (writable s), LoadContainerFp (\<not> writable s), GetPartPrimSys, GetFsType,
     CreateBundle (bundlePath s), CreateLoop (Fileoff os) (Filelen os),
     MountFs (loopdev os) (rootfs_path os (bundlePath s)) ''squashfs'' MS_RDONLY ''errors=remount-ro'']
    @ (if writable s then [CreateOverlay (bundlePath s)] else [])"

fun create_error :: "sifBundle \<Rightarrow> oci_call \<Rightarrow> string \<Rightarrow> string" where
  "create_error s (OpenFile i w) e = ''can't open image '' @ imagePath s @ '': '' @ e"
| "create_error s (LoadContainerFp r) e = ''could not load image fp: '' @ e"
| "create_error s GetPartPrimSys e = ''could not get primaty partitions: '' @ e"
| "create_error s GetFsType e = ''could not get fs type: '' @ e"
| "create_error s (CreateBundle p) e = ''failed to create OCI bundle: '' @ e"
| "create_error s (CreateLoop off sz) e = ''failed to find loop device: '' @ e"
| "create_error s (MountFs src tgt fs fl d) e = ''failed to mount SIF partition: '' @ e"
| "create_error s (CreateOverlay p) e = ''failed to create overlay: '' @ e"
| "create_error s c e = e"

fun create_teardown :: "oci_os \<Rightarrow> sifBundle \<Rightarrow> oci_call \<Rightarrow> oci_call list" where
  "create_teardown os s (CreateLoop off sz) = [DeleteBundle (bundlePath s)]"
| "create_teardown os s (MountFs src tgt fs fl d) = [DeleteBundle (bundlePath s)]"
| "create_teardown os s (CreateOverlay p) =
     [UnmountFs (rootfs_path os (bundlePath s)) MNT_DETACH, DeleteBundle (bundlePath s)]"
| "create_teardown os s c = []"

section \<open>The build pipeline\<close>

record Options =
  Update :: bool
  Force :: bool
  TmpDir :: string
  ImgCache :: "string option"
  EncryptionKeyInfo :: "string option"
  LibraryURL :: string
  LibraryAuthToken :: string

record Config =
  Dest :: string
  Format :: string
  NoCleanUp :: bool
  Opts :: Options

text \<open>
  \<^verbatim>\<open>types.Bundle\<close>, as far as the pipeline reads and writes it. A stage holds a pointer
  to its bundle; here the bundle is stored in the stage and updated in place.
\<close>

record Bundle =
  RootfsPath :: string
  BundleTmpDir :: string
  Recipe :: Definition
  BundleOpts :: Options
  JSONLabels :: "(string \<rightharpoonup> (string \<rightharpoonup> string)) option"

datatype Assembler = SandboxAssembler | SIFAssembler bool string

text \<open>The fields \<^verbatim>\<open>name\<close>, \<^verbatim>\<open>b\<close>, \<^verbatim>\<open>c\<close>, \<^verbatim>\<open>a\<close> of \<^verbatim>\<open>stage\<close>; a nil interface is \<open>None\<close>.\<close>

record stage =
  stage_name :: string
  stage_b :: Bundle
  stage_c :: "ConveyorPacker option"
  stage_a :: "Assembler option"

record Build =
  stages :: "stage list"
  Conf :: Config

text \<open>A Go call returns a value, returns an error, or panics.\<close>

datatype 'a res = Ok 'a | Err string | Panic string

text \<open>
  What the pipeline calls outside this file. A bundle is named by its \<^verbatim>\<open>RootfsPath\<close>.
  \<^verbatim>\<open>RunPreScript\<close>, \<^verbatim>\<open>InsertScripts\<close> and \<^verbatim>\<open>Assemble\<close> are the stage methods that are not
  among the sources; \<^verbatim>\<open>EnsureGzipComp\<close> stands for the whole probe of
  \<^verbatim>\<open>ensureGzipComp\<close>; \<^verbatim>\<open>Infof\<close>, \<^verbatim>\<open>Errorf\<close> and \<^verbatim>\<open>Warningf\<close> are the log lines of
  \<^verbatim>\<open>cleanUp\<close> and \<^verbatim>\<open>copyFiles\<close> (the other log lines are left out).
\<close>

datatype build_call =
    NewBundle string string
  | NewEncryptedBundle string string string
  | SquashfsGetPath
  | EnsureGzipComp string string
  | RunPreScript string
  | GetLocalPacker string string
  | LocalPack string
  | ConveyorGet ConveyorPacker string
  | ConveyorPack ConveyorPacker string
  | HandleBundle string
  | FilesCopy string string
  | JsonMarshal string
  | PipeCommand string
  | StarterRun string
  | InsertScripts string
  | Assemble Assembler string string
  | RemoveAll string
  | Infof "string list"
  | Errorf string
  | Warningf string

text \<open>
  The surroundings of a build: which call fails, given the calls before it; the user id; the
  names that \<^verbatim>\<open>uuid.NewV1\<close> and the bundle constructor generate for the stage with a given
  index; the path functions; and the functions of packages \<^verbatim>\<open>files\<close>, \<^verbatim>\<open>apps\<close>, \<^verbatim>\<open>json\<close>
  and \<^verbatim>\<open>types\<close> the pipeline uses. \<^verbatim>\<open>conveyorPacker\<close> is the dispatch the newer
  \<^verbatim>\<open>newBuild\<close> calls, which is not among the sources.
\<close>

record build_env =
  bfails :: "build_call list \<Rightarrow> build_call \<Rightarrow> string option"
  uid :: nat
  uuid :: "nat \<Rightarrow> string"
  tmpname :: "nat \<Rightarrow> string"
  pathClean :: "string \<Rightarrow> string"
  pathDir :: "string \<Rightarrow> string"
  pathJoin :: "string \<Rightarrow> string \<Rightarrow> string"
  AddPrefix :: "string \<Rightarrow> string \<Rightarrow> string"
  RunSection :: "Bundle \<Rightarrow> string \<Rightarrow> bool"
  HandlePost :: "(string \<times> string) list \<Rightarrow> string"
  GetAppLabels :: "string \<Rightarrow> string \<Rightarrow> string \<times> string option"
  Unmarshal :: "string \<Rightarrow> string + (string \<times> string) list"
  conveyorPacker :: "Definition \<Rightarrow> string + ConveyorPacker"
  mksquashfsPath :: string
  gzipFlag :: bool

text \<open>
  The calls made so far, the working directories that exist, and the directories removed
  so far, in the order of their removal.
\<close>

record build_world =
  trace :: "build_call list"
  dirs :: "string set"
  removed :: "string list"

definition bcall :: "build_env \<Rightarrow> build_call \<Rightarrow> build_world \<Rightarrow> string option \<times> build_world" where
  "bcall env c w = (bfails env (trace w) c, w\<lparr>trace := trace w @ [c]\<rparr>)"

definition blog :: "build_call \<Rightarrow> build_world \<Rightarrow> build_world" where
  "blog c w = w\<lparr>trace := trace w @ [c]\<rparr>"

subsection \<open>cleanUp\<close>

text \<open>
  Modelled from the spec: \<^verbatim>\<open>Bundle.Remove\<close> is not among the sources. The spec has a
  bundle destroyed by removal of its working directory tree; the older \<^verbatim>\<open>cleanUp\<close> in
  the same file calls \<^verbatim>\<open>os.RemoveAll\<close> on the bundle path, which returns nil for a path
  that does not exist. So each of the two directories of the bundle is removed if it is
  there, the removal of a directory that exists may fail, and the first error is returned.
\<close>

definition RemoveAll_dir :: "build_env \<Rightarrow> string \<Rightarrow> build_world \<Rightarrow> string option \<times> build_world" where
  "RemoveAll_dir env p w =
    (if p \<notin> dirs w then (None, blog (RemoveAll p) w)
     else (case bcall env (RemoveAll p) w of
             (Some e, w') \<Rightarrow> (Some e, w')
           | (None, w') \<Rightarrow> (None, w'\<lparr>dirs := dirs w' - {p}, removed := removed w' @ [p]\<rparr>)))"

definition Bundle_Remove :: "build_env \<Rightarrow> Bundle \<Rightarrow> build_world \<Rightarrow> string option \<times> build_world" where
  "Bundle_Remove env bd w =
    (case RemoveAll_dir env (RootfsPath bd) w of (e1, w1) \<Rightarrow>
     case RemoveAll_dir env (BundleTmpDir bd) w1 of (e2, w2) \<Rightarrow>
       (case e1 of Some e \<Rightarrow> Some e | None \<Rightarrow> e2, w2))"

text \<open>The second loop of \<^verbatim>\<open>cleanUp\<close>: an error of \<^verbatim>\<open>Remove\<close> is logged and the loop goes on.\<close>

fun cleanUp_loop :: "build_env \<Rightarrow> stage list \<Rightarrow> build_world \<Rightarrow> build_world" where
  "cleanUp_loop env [] w = w"
| "cleanUp_loop env (s # ss) w =
    (case Bundle_Remove env (stage_b s) w of
       (None, w') \<Rightarrow> cleanUp_loop env ss w'
     | (Some e, w') \<Rightarrow> cleanUp_loop env ss (blog (Errorf (''Could not remove bundle: '' @ e)) w'))"

definition stage_paths :: "stage list \<Rightarrow> string list" where
  "stage_paths ss = concat (map (\<lambda>s. [RootfsPath (stage_b s), BundleTmpDir (stage_b s)]) ss)"

definition bundlePaths :: "Build \<Rightarrow> string list" where
  "bundlePaths b = stage_paths (stages b)"

definition cleanUp :: "build_env \<Rightarrow> Build \<Rightarrow> build_world \<Rightarrow> build_world" where
  "cleanUp env b w =
    (if NoCleanUp (Conf b) then blog (Infof (bundlePaths b)) w
     else cleanUp_loop env (stages b) w)"

text \<open>The error lines among a list of calls.\<close>

fun is_Errorf :: "build_call \<Rightarrow> bool" where
  "is_Errorf (Errorf e) = True"
| "is_Errorf c = False"

text \<open>The error lines logged between a world and a later one.\<close>

definition logged_errors :: "build_world \<Rightarrow> build_world \<Rightarrow> build_call list" where
  "logged_errors w w' = filter is_Errorf (drop (length (trace w)) (trace w'))"

subsection \<open>newBuild\<close>

text \<open>
  Writing the assembler of the stage at \<^verbatim>\<open>lastStageIndex\<close>; an index outside the slice
  panics.
\<close>

definition set_assembler :: "stage list \<Rightarrow> int \<Rightarrow> Assembler \<Rightarrow> stage list res" where
  "set_assembler sts i asm =
    (if 0 \<le> i \<and> i < int (length sts)
     then Ok (sts[nat i := (sts ! nat i)\<lparr>stage_a := Some asm\<rparr>])
     else Panic ''index out of range'')"

text \<open>
  The loop "create stages" of \<^verbatim>\<open>newBuild\<close> over the definitions still to come, with the
  stages built so far. The bundle constructor creates the two directories of the bundle.
  The call of \<^verbatim>\<open>syscall.Umask\<close> before the loop is left out.
\<close>

fun newBuild_stages ::
  "build_env \<Rightarrow> Config \<Rightarrow> Definition list \<Rightarrow> stage list \<Rightarrow> build_world \<Rightarrow> stage list res \<times> build_world"
where
  "newBuild_stages env conf [] acc w = (Ok acc, w)"
| "newBuild_stages env conf (d # ds) acc w =
    (if Header d = None then (Err ''multiple stages detected, all must have headers'', w)
     else
       let rootfsParent = (if Format conf = ''sandbox'' then pathDir env (Dest conf)
                           else TmpDir (Opts conf));
           rootfs = pathJoin env rootfsParent (''rootfs-'' @ uuid env (length acc));
           mk = (case EncryptionKeyInfo (Opts conf) of
                   Some k \<Rightarrow> NewEncryptedBundle rootfs (TmpDir (Opts conf)) k
                 | None \<Rightarrow> NewBundle rootfs (TmpDir (Opts conf)))
       in case bcall env mk w of
            (Some e, w1) \<Rightarrow> (Err e, w1)
          | (None, w1) \<Rightarrow>
              let tmp = pathJoin env (TmpDir (Opts conf)) (tmpname env (length acc));
                  w2 = w1\<lparr>dirs := dirs w1 \<union> {rootfs, tmp}\<rparr>;
                  s = \<lparr>stage_name = mapget (Header d) ''stage'',
                       stage_b = \<lparr>RootfsPath = rootfs, BundleTmpDir = tmp, Recipe = d,
                                  BundleOpts = Opts conf, JSONLabels = None\<rparr>,
                       stage_c = None, stage_a = None\<rparr>
              in if \<not> Update (Opts conf) \<or> Force (Opts conf) then
                   (case conveyorPacker env d of
                      Inr cp \<Rightarrow> newBuild_stages env conf ds (acc @ [s\<lparr>stage_c := Some cp\<rparr>]) w2
                    | Inl e \<Rightarrow> (Err (''unable to get conveyorpacker: '' @ e), w2))
                 else newBuild_stages env conf ds (acc @ [s]) w2)"

text \<open>The local \<^verbatim>\<open>rootfsParent\<close> of the loop, as a function of the configuration.\<close>

definition rootfsParent :: "build_env \<Rightarrow> Config \<Rightarrow> string" where
  "rootfsParent env conf =
     (if Format conf = ''sandbox'' then pathDir env (Dest conf) else TmpDir (Opts conf))"

text \<open>The configuration \<^verbatim>\<open>newBuild\<close> works with: cleaned destination, forced format.\<close>

definition newBuild_conf :: "build_env \<Rightarrow> Config \<Rightarrow> Config" where
  "newBuild_conf env conf =
    (let conf1 = conf\<lparr>Dest := pathClean env (Dest conf)\<rparr>
     in if Update (Opts conf1) then conf1\<lparr>Format := ''sandbox''\<rparr> else conf1)"

definition finish_build :: "Config \<Rightarrow> stage list res \<Rightarrow> build_world \<Rightarrow> Build res \<times> build_world" where
  "finish_build conf r w =
    (case r of Ok sts \<Rightarrow> (Ok \<lparr>stages = sts, Conf = conf\<rparr>, w)
             | Err e \<Rightarrow> (Err e, w) | Panic e \<Rightarrow> (Panic e, w))"

definition newBuild :: "build_env \<Rightarrow> Definition list \<Rightarrow> Config \<Rightarrow> build_world \<Rightarrow> Build res \<times> build_world" where
  "newBuild env defs conf0 w =
    (let conf = newBuild_conf env conf0 in
     case newBuild_stages env conf defs [] w of
       (Err e, w1) \<Rightarrow> (Err e, w1)
     | (Panic e, w1) \<Rightarrow> (Panic e, w1)
     | (Ok sts, w1) \<Rightarrow>
         let lastStageIndex = int (length defs) - 1 in
         if Format conf = ''sandbox'' then
           finish_build conf (set_assembler sts lastStageIndex SandboxAssembler) w1
         else if Format conf = ''sif'' then
           (case bcall env SquashfsGetPath w1 of
              (Some e, w2) \<Rightarrow> (Err (''while searching for mksquashfs: '' @ e), w2)
            | (None, w2) \<Rightarrow>
                if \<not> (0 \<le> lastStageIndex \<and> lastStageIndex < int (length sts))
                then (Panic ''index out of range'', w2)
                else
                  (case bcall env (EnsureGzipComp (BundleTmpDir (stage_b (sts ! nat lastStageIndex)))
                                     (mksquashfsPath env)) w2 of
                     (Some e, w3) \<Rightarrow>
                       (Err (''while ensuring correct compression algorithm: '' @ e), w3)
                   | (None, w3) \<Rightarrow>
                       finish_build conf
                         (set_assembler sts lastStageIndex
                            (SIFAssembler (gzipFlag env) (mksquashfsPath env))) w3))
         else (Err (''unrecognized output format '' @ Format conf), w1))"

subsection \<open>The older newBuild\<close>

text \<open>
  The file holds a second, older \<^verbatim>\<open>newBuild\<close> (the one that calls \<^verbatim>\<open>getcp\<close>). Its bundle
  has a single directory, \<^verbatim>\<open>Path\<close>, created by \<^verbatim>\<open>NewBundle\<close> under the temporary
  directory; its stages have no name; its SIF assembler has no fields set.
\<close>

record stage0 =
  path0 :: string
  recipe0 :: Definition
  opts0 :: Options
  c0 :: "ConveyorPacker option"
  a0 :: "Assembler option"

record Build0 =
  stages0 :: "stage0 list"
  Conf0 :: Config

fun newBuild0_stages ::
  "build_env \<Rightarrow> Config \<Rightarrow> bool \<Rightarrow> Definition list \<Rightarrow> stage0 list \<Rightarrow> build_world \<Rightarrow>
   stage0 list res \<times> build_world"
where
  "newBuild0_stages env conf allow [] acc w = (Ok acc, w)"
| "newBuild0_stages env conf allow (d # ds) acc w =
    (case bcall env (NewBundle (TmpDir (Opts conf)) ''sbuild'') w of
       (Some e, w1) \<Rightarrow> (Err e, w1)
     | (None, w1) \<Rightarrow>
         let p = pathJoin env (TmpDir (Opts conf)) (tmpname env (length acc));
             w2 = w1\<lparr>dirs := insert p (dirs w1)\<rparr>;
             s = \<lparr>path0 = p, recipe0 = d, opts0 = Opts conf, c0 = None, a0 = None\<rparr>
         in if \<not> Update (Opts conf) \<or> Force (Opts conf) then
              (case getcp d (LibraryURL (Opts conf)) (LibraryAuthToken (Opts conf)) allow of
                 Inr cp \<Rightarrow> newBuild0_stages env conf allow ds (acc @ [s\<lparr>c0 := Some cp\<rparr>]) w2
               | Inl e \<Rightarrow> (Err (''unable to get conveyorpacker: '' @ e), w2))
            else newBuild0_stages env conf allow ds (acc @ [s]) w2)"

definition set_assembler0 :: "stage0 list \<Rightarrow> int \<Rightarrow> Assembler \<Rightarrow> stage0 list res" where
  "set_assembler0 sts i asm =
    (if 0 \<le> i \<and> i < int (length sts)
     then Ok (sts[nat i := (sts ! nat i)\<lparr>a0 := Some asm\<rparr>])
     else Panic ''index out of range'')"

definition newBuild0_conf :: "Config \<Rightarrow> Config" where
  "newBuild0_conf conf = (if Update (Opts conf) then conf\<lparr>Format := ''sandbox''\<rparr> else conf)"

definition newBuild0 ::
  "build_env \<Rightarrow> Definition list \<Rightarrow> Config \<Rightarrow> bool \<Rightarrow> build_world \<Rightarrow> Build0 res \<times> build_world"
where
  "newBuild0 env defs conf0 allowUnauthenticatedBuild w =
    (let conf = newBuild0_conf conf0 in
     case newBuild0_stages env conf allowUnauthenticatedBuild defs [] w of
       (Err e, w1) \<Rightarrow> (Err e, w1)
     | (Panic e, w1) \<Rightarrow> (Panic e, w1)
     | (Ok sts, w1) \<Rightarrow>
         let lastStageIndex = int (length defs) - 1 in
         if Format conf = ''sandbox'' \<or> Format conf = ''sif'' then
           (case set_assembler0 sts lastStageIndex
                   (if Format conf = ''sandbox'' then SandboxAssembler else SIFAssembler False []) of
              Ok sts' \<Rightarrow> (Ok \<lparr>stages0 = sts', Conf0 = conf\<rparr>, w1)
            | Err e \<Rightarrow> (Err e, w1)
            | Panic e \<Rightarrow> (Panic e, w1))
         else (Err (''unrecognized output format '' @ Format conf), w1))"

subsection \<open>findStageIndex and copyFiles\<close>

text \<open>
  \<^verbatim>\<open>findStageIndex\<close>: the loop over the stages from index \<open>i\<close> on. The index \<^verbatim>\<open>-1\<close> that
  goes with the error is not used by the caller.
\<close>

fun findStageIndex_from :: "stage list \<Rightarrow> nat \<Rightarrow> string \<Rightarrow> string + nat" where
  "findStageIndex_from [] i n = Inl (''stage '' @ n @ '' was not found'')"
| "findStageIndex_from (s # ss) i n =
    (if n = stage_name s then Inr i else findStageIndex_from ss (Suc i) n)"

definition findStageIndex :: "Build \<Rightarrow> string \<Rightarrow> string + nat" where
  "findStageIndex b n = findStageIndex_from (stages b) 0 n"

text \<open>
  \<^verbatim>\<open>strings.Fields\<close> splits a string around runs of runes for which \<^verbatim>\<open>unicode.IsSpace\<close>
  holds. A Go string is a sequence of bytes read as UTF-8, and so is a \<open>string\<close> here.
  \<open>space_runes\<close> lists the UTF-8 encodings of the white space runes: the six ASCII ones,
  U+0085, U+00A0, U+1680, U+2000 to U+200A, U+2028, U+2029, U+202F, U+205F and U+3000.
  Each encoding starts with a byte that is no continuation byte, and an invalid byte is
  read by Go as one rune that is no white space, so looking for an encoding at each byte
  that does not belong to a white space rune already found is the same as decoding rune
  by rune.
\<close>

definition space_runes :: "string list" where
  "space_runes =
    [[CHR 0x09], [CHR 0x0A], [CHR 0x0B], [CHR 0x0C], [CHR 0x0D], [CHR 0x20],
     [CHR 0xC2, CHR 0x85], [CHR 0xC2, CHR 0xA0],
     [CHR 0xE1, CHR 0x9A, CHR 0x80],
     [CHR 0xE2, CHR 0x80, CHR 0x80], [CHR 0xE2, CHR 0x80, CHR 0x81],
     [CHR 0xE2, CHR 0x80, CHR 0x82], [CHR 0xE2, CHR 0x80, CHR 0x83],
     [CHR 0xE2, CHR 0x80, CHR 0x84], [CHR 0xE2, CHR 0x80, CHR 0x85],
     [CHR 0xE2, CHR 0x80, CHR 0x86], [CHR 0xE2, CHR 0x80, CHR 0x87],
     [CHR 0xE2, CHR 0x80, CHR 0x88], [CHR 0xE2, CHR 0x80, CHR 0x89],
     [CHR 0xE2, CHR 0x80, CHR 0x8A],
     [CHR 0xE2, CHR 0x80, CHR 0xA8], [CHR 0xE2, CHR 0x80, CHR 0xA9],
     [CHR 0xE2, CHR 0x80, CHR 0xAF], [CHR 0xE2, CHR 0x81, CHR 0x9F],
     [CHR 0xE3, CHR 0x80, CHR 0x80]]"

text \<open>The number of bytes of the white space rune a string starts with; 0 if it starts with none.\<close>

definition spaceWidth :: "string \<Rightarrow> nat" where
  "spaceWidth s =
    (if take 1 s \<in> set space_runes then 1
     else if take 2 s \<in> set space_runes then 2
     else if take 3 s \<in> set space_runes then 3
     else 0)"

text \<open>
  The scan of \<^verbatim>\<open>strings.Fields\<close>: \<open>cur\<close> is the field being read, \<open>k\<close> the number of bytes
  still to skip of the white space rune found last.
\<close>

fun Fields_from :: "string \<Rightarrow> string \<Rightarrow> nat \<Rightarrow> string list" where
  "Fields_from [] cur k = (if cur = [] then [] else [cur])"
| "Fields_from (ch # cs) cur k =
    (if 0 < k then Fields_from cs cur (k - 1)
     else if 0 < spaceWidth (ch # cs) then
       (if cur = [] then Fields_from cs [] (spaceWidth (ch # cs) - 1)
        else cur # Fields_from cs [] (spaceWidth (ch # cs) - 1))
     else Fields_from cs (cur @ [ch]) 0)"

definition Fields :: "string \<Rightarrow> string list" where
  "Fields s = Fields_from s [] 0"

text \<open>Whether a call returned a value.\<close>

fun succeeded :: "'a res \<Rightarrow> bool" where
  "succeeded (Ok x) = True"
| "succeeded (Err e) = False"
| "succeeded (Panic e) = False"

text \<open>The inner loop of \<^verbatim>\<open>copyFiles\<close> over the transfers of one directive.\<close>

fun copy_transfers ::
  "build_env \<Rightarrow> string \<Rightarrow> string \<Rightarrow> FileTransfer list \<Rightarrow> build_world \<Rightarrow> unit res \<times> build_world"
where
  "copy_transfers env srcRoot dstRoot [] w = (Ok (), w)"
| "copy_transfers env srcRoot dstRoot (t # ts) w =
    (if Src t = []
     then copy_transfers env srcRoot dstRoot ts
            (blog (Warningf ''Attempt to copy file with no name, skipping.'') w)
     else
       let dst = (if Dst t = [] then Src t else Dst t) in
       case bcall env (FilesCopy (AddPrefix env srcRoot (Src t)) (AddPrefix env dstRoot dst)) w of
         (Some e, w') \<Rightarrow> (Err e, w')
       | (None, w') \<Rightarrow> copy_transfers env srcRoot dstRoot ts w')"

text \<open>The outer loop of \<^verbatim>\<open>copyFiles\<close> over the directives of the recipe.\<close>

fun copyFiles_loop ::
  "build_env \<Rightarrow> Build \<Rightarrow> stage \<Rightarrow> Files list \<Rightarrow> build_world \<Rightarrow> unit res \<times> build_world"
where
  "copyFiles_loop env b s [] w = (Ok (), w)"
| "copyFiles_loop env b s (f # fs) w =
    (if Args f = [] then copyFiles_loop env b s fs w
     else if length (Fields (Args f)) \<noteq> 2 then copyFiles_loop env b s fs w
     else
       (case findStageIndex b (Fields (Args f) ! 1) of
          Inl e \<Rightarrow> (Err e, w)
        | Inr stageIndex \<Rightarrow>
            (case copy_transfers env (RootfsPath (stage_b (stages b ! stageIndex)))
                    (RootfsPath (stage_b s)) (Files f) w of
               (Ok u, w') \<Rightarrow> copyFiles_loop env b s fs w'
             | (r, w') \<Rightarrow> (r, w'))))"

definition copyFiles :: "build_env \<Rightarrow> Build \<Rightarrow> stage \<Rightarrow> build_world \<Rightarrow> unit res \<times> build_world" where
  "copyFiles env b s w = copyFiles_loop env b s (BuildFiles (Recipe (stage_b s))) w"

subsection \<open>The build engine\<close>

definition engineRequired :: "Definition \<Rightarrow> bool" where
  "engineRequired def \<longleftrightarrow>
     Post def \<noteq> [] \<or> Setup def \<noteq> [] \<or> Test def \<noteq> [] \<or> length (BuildFiles def) \<noteq> 0"

definition privilege_error :: string where
  "privilege_error = ''attempted to build with scripts as non-root user or without --fakeroot''"

definition runBuildEngine :: "build_env \<Rightarrow> Bundle \<Rightarrow> build_world \<Rightarrow> string option \<times> build_world" where
  "runBuildEngine env bd w =
    (if uid env \<noteq> 0 then (Some privilege_error, w)
     else
       (case bcall env (JsonMarshal (RootfsPath bd)) w of
          (Some e, w1) \<Rightarrow> (Some (''failed to marshal config.Common: '' @ e), w1)
        | (None, w1) \<Rightarrow>
       (case bcall env (PipeCommand (RootfsPath bd)) w1 of
          (Some e, w2) \<Rightarrow> (Some (''failed to create cmd type: '' @ e), w2)
        | (None, w2) \<Rightarrow> bcall env (StarterRun (RootfsPath bd)) w2)))"

subsection \<open>Full\<close>

text \<open>
  The loop body of \<^verbatim>\<open>Full\<close> is cut into the pieces the claims speak of. First the choice
  between extracting the destination image and running the stage's conveyor, for the stage
  \<open>s\<close> at index \<open>i\<close>. A method call on a nil conveyor panics.
\<close>

definition Full_bootstrap ::
  "build_env \<Rightarrow> Build \<Rightarrow> nat \<Rightarrow> stage \<Rightarrow> build_world \<Rightarrow> unit res \<times> build_world"
where
  "Full_bootstrap env b i s w =
    (let update = (Update (BundleOpts (stage_b s)) \<and> \<not> Force (BundleOpts (stage_b s))
                   \<and> int i = int (length (stages b)) - 1);
         rootfs = RootfsPath (stage_b s)
     in if update then
          (case bcall env (GetLocalPacker (Dest (Conf b)) rootfs) w of
             (Some e, w1) \<Rightarrow> (Err e, w1)
           | (None, w1) \<Rightarrow>
               (case bcall env (LocalPack rootfs) w1 of
                  (Some e, w2) \<Rightarrow> (Err e, w2)
                | (None, w2) \<Rightarrow> (Ok (), w2)))
        else if ImgCache (Opts (Conf b)) = None then (Err ''undefined image cache'', w)
        else
          (case stage_c s of
             None \<Rightarrow> (Panic ''invalid memory address or nil pointer dereference'', w)
           | Some cp \<Rightarrow>
               (case bcall env (ConveyorGet cp rootfs) w of
                  (Some e, w1) \<Rightarrow> (Err (''conveyor failed to get: '' @ e), w1)
                | (None, w1) \<Rightarrow>
                    (case bcall env (ConveyorPack cp rootfs) w1 of
                       (Some e, w2) \<Rightarrow> (Err (''packer failed to pack: '' @ e), w2)
                     | (None, w2) \<Rightarrow> (Ok (), w2)))))"

text \<open>The copying of files from other stages, when the section "files" is to be run.\<close>

definition Full_copy :: "build_env \<Rightarrow> Build \<Rightarrow> stage \<Rightarrow> build_world \<Rightarrow> unit res \<times> build_world" where
  "Full_copy env b s w =
    (if RunSection env (stage_b s) ''files'' then
       (case copyFiles env b s w of
          (Err e, w') \<Rightarrow> (Err (''unable to copy files a stage to container fs: '' @ e), w')
        | (r, w') \<Rightarrow> (r, w'))
     else (Ok (), w))"

text \<open>The build engine, when the recipe asks for it.\<close>

definition Full_engine :: "build_env \<Rightarrow> stage \<Rightarrow> build_world \<Rightarrow> unit res \<times> build_world" where
  "Full_engine env s w =
    (if engineRequired (Recipe (stage_b s)) then
       (case runBuildEngine env (stage_b s) w of
          (Some e, w') \<Rightarrow> (Err (''while running engine: '' @ e), w')
        | (None, w') \<Rightarrow> (Ok (), w'))
     else (Ok (), w))"

text \<open>
  The stage at index \<open>i\<close> with the fragment of the apps appended to its post script; the
  write goes through the bundle pointer, so the build holds the changed bundle.
\<close>

definition append_post :: "build_env \<Rightarrow> stage \<Rightarrow> stage" where
  "append_post env s =
    s\<lparr>stage_b := (stage_b s)\<lparr>Recipe := (Recipe (stage_b s))
        \<lparr>Post := Post (Recipe (stage_b s)) @ HandlePost env (CustomData (Recipe (stage_b s)))\<rparr>\<rparr>\<rparr>"

text \<open>One turn of the loop "build each stage one after the other".\<close>

definition Full_stage :: "build_env \<Rightarrow> Build \<Rightarrow> nat \<Rightarrow> build_world \<Rightarrow> Build res \<times> build_world" where
  "Full_stage env b i w =
    (let s = stages b ! i; rootfs = RootfsPath (stage_b s) in
     case bcall env (RunPreScript rootfs) w of
       (Some e, w1) \<Rightarrow> (Err e, w1)
     | (None, w1) \<Rightarrow>
    (case Full_bootstrap env b i s w1 of
       (Err e, w2) \<Rightarrow> (Err e, w2)
     | (Panic e, w2) \<Rightarrow> (Panic e, w2)
     | (Ok u, w2) \<Rightarrow>
    (case bcall env (HandleBundle rootfs) w2 of
       (Some e, w3) \<Rightarrow> (Err (''failed while creating app: '' @ e), w3)
     | (None, w3) \<Rightarrow>
    (let s' = append_post env s; b' = b\<lparr>stages := (stages b)[i := s']\<rparr> in
     case Full_copy env b' s' w3 of
       (Err e, w4) \<Rightarrow> (Err e, w4)
     | (Panic e, w4) \<Rightarrow> (Panic e, w4)
     | (Ok u, w4) \<Rightarrow>
    (case Full_engine env s' w4 of
       (Err e, w5) \<Rightarrow> (Err e, w5)
     | (Panic e, w5) \<Rightarrow> (Panic e, w5)
     | (Ok u, w5) \<Rightarrow>
    (case bcall env (InsertScripts rootfs) w5 of
       (Some e, w6) \<Rightarrow> (Err (''while inserting scripts to bundle: '' @ e), w6)
     | (None, w6) \<Rightarrow> (Ok b', w6)))))))"

text \<open>The loop over the stage indices; the first error or panic ends it.\<close>

fun Full_loop :: "build_env \<Rightarrow> Build \<Rightarrow> nat list \<Rightarrow> build_world \<Rightarrow> Build res \<times> build_world" where
  "Full_loop env b [] w = (Ok b, w)"
| "Full_loop env b (i # is) w =
    (case Full_stage env b i w of
       (Ok b', w') \<Rightarrow> Full_loop env b' is w'
     | (r, w') \<Rightarrow> (r, w'))"

text \<open>
  The labels of the apps of the last stage. \<^verbatim>\<open>CustomData\<close> is a Go map; the list gives
  its entries in the order the loop happens to visit them.
\<close>

fun app_labels ::
  "build_env \<Rightarrow> (string \<times> string) list \<Rightarrow> (string \<rightharpoonup> (string \<rightharpoonup> string)) \<Rightarrow>
   string + (string \<rightharpoonup> (string \<rightharpoonup> string))"
where
  "app_labels env [] l = Inr l"
| "app_labels env ((k, v) # cd) l =
    (case GetAppLabels env k v of
       (appName, Some appLabels) \<Rightarrow>
         (if appName \<noteq> [] then
            (case Unmarshal env appLabels of
               Inl e \<Rightarrow> Inl e
             | Inr kvs \<Rightarrow> app_labels env cd (l(appName \<mapsto> map_of (rev kvs))))
          else app_labels env cd l)
     | (appName, None) \<Rightarrow> app_labels env cd l)"

text \<open>What follows the loop: the labels of the last stage and the call of its assembler.\<close>

definition Full_finish :: "build_env \<Rightarrow> Build \<Rightarrow> build_world \<Rightarrow> Build res \<times> build_world" where
  "Full_finish env b w =
    (if stages b = [] then (Panic ''index out of range'', w)
     else
       let s = last (stages b); bd = stage_b s;
           l0 = (case JSONLabels bd of None \<Rightarrow> Map.empty | Some m \<Rightarrow> m);
           l1 = (case l0 ''system-partition'' of
                   None \<Rightarrow> l0(''system-partition'' \<mapsto> Map.empty) | Some m \<Rightarrow> l0)
       in case app_labels env (CustomData (Recipe bd)) l1 of
            Inl e \<Rightarrow> (Err (''unable to unmarshal json from app: '' @ e), w)
          | Inr l2 \<Rightarrow>
              let sys = (case l2 ''system-partition'' of None \<Rightarrow> Map.empty | Some m \<Rightarrow> m);
                  l3 = l2(''system-partition'' \<mapsto> sys ++ map_of (rev (Labels (Recipe bd))));
                  b' = b\<lparr>stages := (stages b)[length (stages b) - 1 :=
                                       s\<lparr>stage_b := bd\<lparr>JSONLabels := Some l3\<rparr>\<rparr>]\<rparr>
              in case stage_a s of
                   None \<Rightarrow> (Panic ''invalid memory address or nil pointer dereference'', w)
                 | Some asm \<Rightarrow>
                     (case bcall env (Assemble asm (RootfsPath bd) (Dest (Conf b))) w of
                        (Some e, w') \<Rightarrow> (Err e, w')
                      | (None, w') \<Rightarrow> (Ok b', w')))"

definition Full_body :: "build_env \<Rightarrow> Build \<Rightarrow> build_world \<Rightarrow> Build res \<times> build_world" where
  "Full_body env b w =
    (case Full_loop env b [0 ..< length (stages b)] w of
       (Ok b', w') \<Rightarrow> Full_finish env b' w'
     | (r, w') \<Rightarrow> (r, w'))"

text \<open>
  \<^verbatim>\<open>Full\<close>: the deferred \<^verbatim>\<open>b.cleanUp()\<close> runs when the body returns or panics. Its
  receiver is the value of the build when the \<^verbatim>\<open>defer\<close> statement is executed; the body
  changes neither the configuration nor the paths of the bundles. The goroutine that waits
  for a signal is not part of this sequential model.
\<close>

definition Full :: "build_env \<Rightarrow> Build \<Rightarrow> build_world \<Rightarrow> Build res \<times> build_world" where
  "Full env b w = (case Full_body env b w of (r, w') \<Rightarrow> (r, cleanUp env b w'))"

text \<open>
  The stage at index \<open>i\<close> holds a directive whose arguments are two words, the second of
  which, \<open>n\<close>, names no stage of the build, and the section "files" of its bundle is run.
\<close>

definition names_unknown_stage :: "build_env \<Rightarrow> Build \<Rightarrow> nat \<Rightarrow> string \<Rightarrow> bool" where
  "names_unknown_stage env b i n \<longleftrightarrow>
     i < length (stages b)
     \<and> (\<exists>f \<in> set (BuildFiles (Recipe (stage_b (stages b ! i)))). \<exists>x. Fields (Args f) = [x, n])
     \<and> n \<notin> stage_name ` set (stages b)
     \<and> RunSection env (stage_b (append_post env (stages b ! i))) ''files''"

text \<open>
  The calls of the build engine, and the relation between a world and a later one in which
  no such call has been added.
\<close>

fun engine_call :: "build_call \<Rightarrow> bool" where
  "engine_call (JsonMarshal r) = True"
| "engine_call (PipeCommand r) = True"
| "engine_call (StarterRun r) = True"
| "engine_call c = False"

definition no_engine :: "build_world \<Rightarrow> build_world \<Rightarrow> bool" where
  "no_engine w w' \<longleftrightarrow> (\<forall>c \<in> set (trace w'). engine_call c \<longrightarrow> c \<in> set (trace w))"

subsection \<open>Example inputs\<close>

text \<open>
  Zero values and small inputs at which the theorems below are instantiated: an environment
  in which no call fails and the caller is root, and a bundle as \<^verbatim>\<open>NewBundle\<close> returns it.
\<close>

definition zero_Options :: Options where
  "zero_Options = \<lparr>Update = False, Force = False, TmpDir = [], ImgCache = None,
     EncryptionKeyInfo = None, LibraryURL = [], LibraryAuthToken = []\<rparr>"

definition example_env :: build_env where
  "example_env = \<lparr>bfails = \<lambda>tr c. None, uid = 0,
     uuid = \<lambda>n. ''id'' @ replicate n (CHR ''x''), tmpname = \<lambda>n. ''bundle-temp-'' @ replicate n (CHR ''x''),
     pathClean = \<lambda>p. p, pathDir = \<lambda>p. ''/out'', pathJoin = \<lambda>p q. p @ ''/'' @ q,
     AddPrefix = \<lambda>p q. p @ q, RunSection = \<lambda>bd n. True, HandlePost = \<lambda>cd. [],
     GetAppLabels = \<lambda>k v. ([], None), Unmarshal = \<lambda>j. Inr [],
     conveyorPacker = \<lambda>d. getcp d [] [] False, mksquashfsPath = ''/usr/bin/mksquashfs'',
     gzipFlag = False\<rparr>"

definition scratch_def :: Definition where
  "scratch_def = zero_Definition\<lparr>Header := Some [''bootstrap'' \<mapsto> ''scratch'']\<rparr>"

definition example_conf :: Config where
  "example_conf = \<lparr>Dest = ''/out/c'', Format = ''sandbox'', NoCleanUp = False, Opts = zero_Options\<rparr>"

definition empty_world :: build_world where
  "empty_world = \<lparr>trace = [], dirs = {}, removed = []\<rparr>"

definition cache_Options :: Options where
  "cache_Options = zero_Options\<lparr>ImgCache := Some ''/cache''\<rparr>"

text \<open>
  Two stages A and B; the only directive of B copies a file "from C". The bundles exist and
  the last stage has its assembler, as after \<^verbatim>\<open>newBuild\<close>.
\<close>

definition from_C :: Files where
  "from_C = \<lparr>Args = ''from C'', Files = [\<lparr>Src = ''/etc/x'', Dst = []\<rparr>]\<rparr>"

definition two_stage_build :: Build where
  "two_stage_build =
    \<lparr>stages =
       [\<lparr>stage_name = ''A'',
         stage_b = \<lparr>RootfsPath = ''/out/ra'', BundleTmpDir = ''/ta'', Recipe = scratch_def,
                    BundleOpts = cache_Options, JSONLabels = None\<rparr>,
         stage_c = Some ScratchConveyorPacker, stage_a = None\<rparr>,
        \<lparr>stage_name = ''B'',
         stage_b = \<lparr>RootfsPath = ''/out/rb'', BundleTmpDir = ''/tb'',
                    Recipe = scratch_def\<lparr>BuildFiles := [from_C]\<rparr>,
                    BundleOpts = cache_Options, JSONLabels = None\<rparr>,
         stage_c = Some ScratchConveyorPacker, stage_a = Some SandboxAssembler\<rparr>],
     Conf = example_conf\<lparr>Opts := cache_Options\<rparr>\<rparr>"

definition two_stage_world :: build_world where
  "two_stage_world =
    \<lparr>trace = [], dirs = {''/out/ra'', ''/ta'', ''/out/rb'', ''/tb''}, removed = []\<rparr>"

definition example_stage :: "string \<Rightarrow> string \<Rightarrow> string \<Rightarrow> Definition \<Rightarrow> Options \<Rightarrow> stage" where
  "example_stage n r t d opts =
     \<lparr>stage_name = n,
      stage_b = \<lparr>RootfsPath = r, BundleTmpDir = t, Recipe = d, BundleOpts = opts, JSONLabels = None\<rparr>,
      stage_c = Some ScratchConveyorPacker, stage_a = None\<rparr>"

section \<open>Properties\<close>

lemma variant_table_keys: "map fst (variant_table u) = bootstrap_keys"
  by (simp add: variant_table_def bootstrap_keys_def)

lemma getcp_table:
  "(k, v) \<in> set (variant_table u) \<Longrightarrow> mapget (Header d) ''bootstrap'' = k \<Longrightarrow>
   getcp d l t u = Inr v"
  by (auto simp: variant_table_def getcp_def)

lemma getcp_empty:
  "mapget (Header d) ''bootstrap'' = [] \<Longrightarrow>
   getcp d l t u = Inl ''no bootstrap specification found''"
  by (simp add: getcp_def)

lemma getcp_other:
  "mapget (Header d) ''bootstrap'' = k \<Longrightarrow> k \<noteq> [] \<Longrightarrow> k \<notin> set bootstrap_keys \<Longrightarrow>
   getcp d l t u = Inl (''invalid build source '' @ k)"
  by (simp add: getcp_def bootstrap_keys_def)

lemma chroot_step_facts:
  assumes "\<forall>j<k. env (take j (chroot_steps root)) (chroot_steps root ! j) = None"
  shows "0 < k \<Longrightarrow> env [] (SysOpen ''/'') = None"
    and "1 < k \<Longrightarrow> env [SysOpen ''/''] (SysChdir root) = None"
    and "2 < k \<Longrightarrow> env [SysOpen ''/'', SysChdir root] (SysPivotRoot ''.'' ''.'') = None"
    and "3 < k \<Longrightarrow> env [SysOpen ''/'', SysChdir root, SysPivotRoot ''.'' ''.''] SysFchdir = None"
    and "4 < k \<Longrightarrow> env [SysOpen ''/'', SysChdir root, SysPivotRoot ''.'' ''.'', SysFchdir]
           (SysMount [] ''.'' [] (MS_SLAVE OR MS_REC) []) = None"
    and "5 < k \<Longrightarrow> env [SysOpen ''/'', SysChdir root, SysPivotRoot ''.'' ''.'', SysFchdir,
           SysMount [] ''.'' [] (MS_SLAVE OR MS_REC) []] (SysUnmount ''.'' MNT_DETACH) = None"
    and "6 < k \<Longrightarrow> env [SysOpen ''/'', SysChdir root, SysPivotRoot ''.'' ''.'', SysFchdir,
           SysMount [] ''.'' [] (MS_SLAVE OR MS_REC) [], SysUnmount ''.'' MNT_DETACH]
           (SysChdir ''/'') = None"
  using assms [rule_format, of 0] assms [rule_format, of 1] assms [rule_format, of 2]
        assms [rule_format, of 3] assms [rule_format, of 4] assms [rule_format, of 5]
        assms [rule_format, of 6]
  by (simp_all add: chroot_steps_def)

lemma Chroot_ok:
  assumes "no_failure env (chroot_steps root)"
  shows "Chroot env root = (None, chroot_steps root @ [SysClose])"
proof -
  have "\<forall>j<7. env (take j (chroot_steps root)) (chroot_steps root ! j) = None"
    using assms by (simp add: no_failure_def chroot_steps_def)
  from chroot_step_facts [OF this] show ?thesis
    by (simp add: chroot_steps_def Chroot_def Chroot_opened_def sys_def)
qed

lemma Chroot_fail:
  assumes "first_failure env (chroot_steps root) k e"
  shows "Chroot env root =
     (Some (chroot_error root k e),
      take (Suc k) (chroot_steps root) @ (if k = 0 then [] else [SysClose]))"
proof -
  have k: "k < 7" using assms by (simp add: first_failure_def chroot_steps_def)
  have pre: "\<forall>j<k. env (take j (chroot_steps root)) (chroot_steps root ! j) = None"
    using assms by (simp add: first_failure_def)
  have at: "env (take k (chroot_steps root)) (chroot_steps root ! k) = Some e"
    using assms by (simp add: first_failure_def)
  note f = chroot_step_facts [OF pre]
  from k consider "k = 0" | "k = 1" | "k = 2" | "k = 3" | "k = 4" | "k = 5" | "k = 6" by linarith
  then show ?thesis
  proof cases
    case 1 with at show ?thesis
      by (simp add: chroot_steps_def Chroot_def sys_def chroot_error_def)
  next
    case 2 with at f show ?thesis
      by (simp add: chroot_steps_def Chroot_def Chroot_opened_def sys_def chroot_error_def)
  next
    case 3 with at f show ?thesis
      by (simp add: chroot_steps_def Chroot_def Chroot_opened_def sys_def chroot_error_def)
  next
    case 4 with at f show ?thesis
      by (simp add: chroot_steps_def Chroot_def Chroot_opened_def sys_def chroot_error_def)
  next
    case 5 with at f show ?thesis
      by (simp add: chroot_steps_def Chroot_def Chroot_opened_def sys_def chroot_error_def)
  next
    case 6 with at f show ?thesis
      by (simp add: chroot_steps_def Chroot_def Chroot_opened_def sys_def chroot_error_def)
  next
    case 7 with at f show ?thesis
      by (simp add: chroot_steps_def Chroot_def Chroot_opened_def sys_def chroot_error_def)
  qed
qed

lemma chroot_spec_steps_subseq: "subseq (chroot_spec_steps root) (chroot_steps root)"
  by (simp add: chroot_spec_steps_def chroot_steps_def)

text \<open>
  Claim C2. Chroot issues, in this order: open of the current root (the descriptor is held
  until the deferred close), chdir to the new root, pivot_root(".", "."), a recursive
  slave remount of ".", a detaching unmount of ".", chdir to "/". Between the pivot and
  the remount the source also changes directory to the held descriptor, which is what makes
  "." the host's root for the two calls that follow; the listed steps are a subsequence of
  the calls made. If no call fails, all are made and no error is returned. If step \<open>k\<close> is
  the first to fail, the result is the error text of step \<open>k\<close>, and the calls made are
  exactly the steps up to \<open>k\<close>, followed only by the deferred close of the descriptor
  when the open had succeeded: no later step runs.
\<close>

theorem Chroot_sequence:
  "subseq (chroot_spec_steps root) (chroot_steps root)
   \<and> (no_failure env (chroot_steps root) \<longrightarrow>
        Chroot env root = (None, chroot_steps root @ [SysClose]))
   \<and> (first_failure env (chroot_steps root) k e \<longrightarrow>
        Chroot env root =
          (Some (chroot_error root k e),
           take (Suc k) (chroot_steps root) @ (if k = 0 then [] else [SysClose])))"
  using chroot_spec_steps_subseq Chroot_ok Chroot_fail by blast

theorem Chroot_sequence_witness:
  "Chroot (\<lambda>tr c. None) ''/mnt'' =
     (None, [SysOpen ''/'', SysChdir ''/mnt'', SysPivotRoot ''.'' ''.'', SysFchdir,
             SysMount [] ''.'' [] (MS_SLAVE OR MS_REC) [], SysUnmount ''.'' MNT_DETACH,
             SysChdir ''/'', SysClose])
   \<and> Chroot (\<lambda>tr c. if c = SysPivotRoot ''.'' ''.'' then Some ''EINVAL'' else None) ''/mnt'' =
     (Some ''pivot_root /mnt: EINVAL'',
      [SysOpen ''/'', SysChdir ''/mnt'', SysPivotRoot ''.'' ''.'', SysClose])"
proof -
  have a: "no_failure (\<lambda>tr c. None) (chroot_steps ''/mnt'')"
    by (simp add: no_failure_def)
  have "\<forall>j<2. chroot_steps ''/mnt'' ! j \<noteq> SysPivotRoot ''.'' ''.''"
    by (auto simp: chroot_steps_def less_2_cases_iff)
  then have b: "first_failure (\<lambda>tr c. if c = SysPivotRoot ''.'' ''.'' then Some ''EINVAL'' else None)
             (chroot_steps ''/mnt'') 2 ''EINVAL''"
    by (simp add: first_failure_def chroot_steps_def)
  show ?thesis
    using Chroot_sequence [of "''/mnt''" "\<lambda>tr c. None" 0 "[]"] a
          Chroot_sequence [of "''/mnt''"
             "\<lambda>tr c. if c = SysPivotRoot ''.'' ''.'' then Some ''EINVAL'' else None" 2 "''EINVAL''"] b
    by (simp add: chroot_steps_def chroot_error_def)
qed

lemma calls_oci_try [simp]: "calls (oci_try os c st) = calls st @ [c]"
  by (cases c) (simp_all add: oci_try_def oci_do_def Let_def)

lemma calls_oci_run: "calls (oci_run os cs st) = calls st @ cs"
  by (induction cs arbitrary: st) simp_all

lemma oci_do_ok: "fails os (calls st) c = None \<Longrightarrow> oci_do os c st = (None, oci_try os c st)"
  by (simp add: oci_try_def oci_do_def Let_def)

lemma oci_do_fail: "fails os (calls st) c = Some e \<Longrightarrow> oci_do os c st = (Some e, oci_try os c st)"
  by (simp add: oci_try_def oci_do_def Let_def)

lemma oci_all_ok_Nil [simp]: "oci_all_ok os st []"
  by (simp add: oci_all_ok_def)

lemma oci_all_ok_Cons:
  "oci_all_ok os st (c # cs) \<longleftrightarrow>
     fails os (calls st) c = None \<and> oci_all_ok os (oci_try os c st) cs"
  unfolding oci_all_ok_def
  by (auto simp: less_Suc_eq_0_disj)

lemma oci_fails_at_0:
  "oci_fails_at os st (c # cs) 0 e \<longleftrightarrow> fails os (calls st) c = Some e"
  by (simp add: oci_fails_at_def)

lemma oci_fails_at_Suc:
  "oci_fails_at os st (c # cs) (Suc k) e \<longleftrightarrow>
     fails os (calls st) c = None \<and> oci_fails_at os (oci_try os c st) cs k e"
  by (auto simp: oci_fails_at_def oci_all_ok_Cons)

lemma oci_fails_at_Nil [simp]: "\<not> oci_fails_at os st [] k e"
  by (simp add: oci_fails_at_def)

lemma Delete_rest_ok:
  assumes "oci_all_ok os st [UnmountFs (rootfs_path os (bundlePath s)) MNT_DETACH, DeleteBundle (bundlePath s)]"
  shows "Delete_rest os s st =
     (None, oci_run os [UnmountFs (rootfs_path os (bundlePath s)) MNT_DETACH, DeleteBundle (bundlePath s)] st)"
  using assms by (simp add: oci_all_ok_Cons Delete_rest_def Let_def oci_do_ok)

lemma Delete_rest_fail:
  assumes "oci_fails_at os st cs k e"
    and "cs = [UnmountFs (rootfs_path os (bundlePath s)) MNT_DETACH, DeleteBundle (bundlePath s)]"
  shows "Delete_rest os s st = (Some (delete_error os (cs ! k) e), oci_run os (take (Suc k) cs) st)"
proof (cases k)
  case 0
  with assms show ?thesis
    by (simp add: oci_fails_at_0 Delete_rest_def Let_def oci_do_fail)
next
  case (Suc j)
  with assms have j: "j = 0" by (simp add: oci_fails_at_def)
  with Suc assms show ?thesis
    by (simp add: oci_fails_at_Suc oci_fails_at_0 Delete_rest_def Let_def oci_do_ok oci_do_fail)
qed

lemma Delete_ok:
  assumes "oci_all_ok os st (delete_steps os s)"
  shows "Delete os s st = (None, oci_run os (delete_steps os s) st)"
proof (cases "writable s")
  case True
  with assms show ?thesis
    by (simp add: delete_steps_def Delete_def oci_all_ok_Cons [of _ _ "DeleteOverlay _"] oci_do_ok Delete_rest_ok)
next
  case False
  with assms show ?thesis
    by (simp add: delete_steps_def Delete_def Delete_rest_ok)
qed

lemma Delete_fail:
  assumes "oci_fails_at os st (delete_steps os s) k e"
  shows "Delete os s st =
     (Some (delete_error os (delete_steps os s ! k) e),
      oci_run os (take (Suc k) (delete_steps os s)) st)"
proof (cases "writable s")
  case False
  with assms show ?thesis
    by (simp add: delete_steps_def Delete_def Delete_rest_fail)
next
  case True
  show ?thesis
  proof (cases k)
    case 0
    with True assms show ?thesis
      by (simp add: delete_steps_def Delete_def oci_fails_at_0 oci_do_fail)
  next
    case (Suc j)
    with True assms have ok: "fails os (calls st) (DeleteOverlay (bundlePath s)) = None"
      and f: "oci_fails_at os (oci_try os (DeleteOverlay (bundlePath s)) st)
           [UnmountFs (rootfs_path os (bundlePath s)) MNT_DETACH, DeleteBundle (bundlePath s)] j e"
      by (simp_all add: delete_steps_def oci_fails_at_Suc)
    from Delete_rest_fail [OF f refl] ok True Suc show ?thesis
      by (simp add: delete_steps_def Delete_def oci_do_ok)
  qed
qed

text \<open>
  Claim C7, as the code has it. Delete removes the overlay when the bundle is writable, then
  unmounts the root filesystem with \<^verbatim>\<open>MNT_DETACH\<close>, then removes the bundle directory,
  in this order, so that the overlay teardown of a writable bundle always comes before the
  unmount. It does not continue after a failure: the first call that fails ends the
  sequence, its error is returned and no later call is made.
\<close>

theorem Delete_stops_at_first_failure:
  "(writable s \<longrightarrow> (\<exists>cs. delete_steps os s =
        DeleteOverlay (bundlePath s) # UnmountFs (rootfs_path os (bundlePath s)) MNT_DETACH # cs))
   \<and> (oci_all_ok os st (delete_steps os s) \<longrightarrow>
        Delete os s st = (None, oci_run os (delete_steps os s) st)
        \<and> calls (snd (Delete os s st)) = calls st @ delete_steps os s)
   \<and> (oci_fails_at os st (delete_steps os s) k e \<longrightarrow>
        Delete os s st =
          (Some (delete_error os (delete_steps os s ! k) e),
           oci_run os (take (Suc k) (delete_steps os s)) st)
        \<and> calls (snd (Delete os s st)) = calls st @ take (Suc k) (delete_steps os s))"
proof (intro conjI impI)
  assume "writable s"
  then show "\<exists>cs. delete_steps os s =
        DeleteOverlay (bundlePath s) # UnmountFs (rootfs_path os (bundlePath s)) MNT_DETACH # cs"
    by (simp add: delete_steps_def)
next
  assume a: "oci_all_ok os st (delete_steps os s)"
  from Delete_ok [OF a] show "Delete os s st = (None, oci_run os (delete_steps os s) st)" .
  from Delete_ok [OF a] show "calls (snd (Delete os s st)) = calls st @ delete_steps os s"
    by (simp add: calls_oci_run)
next
  assume a: "oci_fails_at os st (delete_steps os s) k e"
  from Delete_fail [OF a] show "Delete os s st =
          (Some (delete_error os (delete_steps os s ! k) e),
           oci_run os (take (Suc k) (delete_steps os s)) st)" .
  from Delete_fail [OF a]
  show "calls (snd (Delete os s st)) = calls st @ take (Suc k) (delete_steps os s)"
    by (simp add: calls_oci_run)
qed

theorem Delete_stops_at_first_failure_witness:
  "Delete \<lparr>fails = \<lambda>tr c. None, part_fs = FsSquash, Fileoff = 4096, Filelen = 8192,
            loopdev = ''/dev/loop0'', rootfs_path = \<lambda>p. p @ ''/rootfs''\<rparr>
      \<lparr>imagePath = ''/i.sif'', bundlePath = ''/b'', writable = True\<rparr>
      \<lparr>calls = [], bundles = {''/b''}, loops = {''/dev/loop0''},
       mounts = {(''/dev/loop0'', ''/b/rootfs'')}, overlays = {''/b''}\<rparr>
    = (None, \<lparr>calls = [DeleteOverlay ''/b'', UnmountFs ''/b/rootfs'' MNT_DETACH, DeleteBundle ''/b''],
              bundles = {}, loops = {}, mounts = {}, overlays = {}\<rparr>)
   \<and> Delete \<lparr>fails = \<lambda>tr c. if c = UnmountFs ''/b/rootfs'' MNT_DETACH then Some ''EPERM'' else None,
            part_fs = FsSquash, Fileoff = 4096, Filelen = 8192,
            loopdev = ''/dev/loop0'', rootfs_path = \<lambda>p. p @ ''/rootfs''\<rparr>
      \<lparr>imagePath = ''/i.sif'', bundlePath = ''/b'', writable = True\<rparr>
      \<lparr>calls = [], bundles = {''/b''}, loops = {''/dev/loop0''},
       mounts = {(''/dev/loop0'', ''/b/rootfs'')}, overlays = {''/b''}\<rparr>
    = (Some ''failed to unmount /b/rootfs: EPERM'',
       \<lparr>calls = [DeleteOverlay ''/b'', UnmountFs ''/b/rootfs'' MNT_DETACH],
        bundles = {''/b''}, loops = {''/dev/loop0''},
        mounts = {(''/dev/loop0'', ''/b/rootfs'')}, overlays = {}\<rparr>)"
proof -
  let ?s = "\<lparr>imagePath = ''/i.sif'', bundlePath = ''/b'', writable = True\<rparr>"
  let ?st = "\<lparr>calls = [], bundles = {''/b''}, loops = {''/dev/loop0''},
       mounts = {(''/dev/loop0'', ''/b/rootfs'')}, overlays = {''/b''}\<rparr>"
  let ?o1 = "\<lparr>fails = \<lambda>tr c. None, part_fs = FsSquash, Fileoff = 4096, Filelen = 8192,
            loopdev = ''/dev/loop0'', rootfs_path = \<lambda>p. p @ ''/rootfs''\<rparr>"
  let ?o2 = "\<lparr>fails = \<lambda>tr c. if c = UnmountFs ''/b/rootfs'' MNT_DETACH then Some ''EPERM'' else None,
            part_fs = FsSquash, Fileoff = 4096, Filelen = 8192,
            loopdev = ''/dev/loop0'', rootfs_path = \<lambda>p. p @ ''/rootfs''\<rparr>"
  have a: "oci_all_ok ?o1 ?st (delete_steps ?o1 ?s)"
    by (simp add: oci_all_ok_def)
  have b: "oci_fails_at ?o2 ?st (delete_steps ?o2 ?s) 1 ''EPERM''"
    by (simp add: oci_fails_at_def oci_all_ok_def delete_steps_def)
  show ?thesis
    using Delete_stops_at_first_failure [of ?s ?o1 ?st 0 "[]"] a
          Delete_stops_at_first_failure [of ?s ?o2 ?st 1 "''EPERM''"] b
    by (simp add: delete_steps_def oci_try_def oci_do_def Let_def)
qed

theorem Delete_continues_counterexample:
  "fst (Delete \<lparr>fails = \<lambda>tr c. if c = DeleteOverlay ''/b'' then Some ''EBUSY'' else None,
            part_fs = FsSquash, Fileoff = 4096, Filelen = 8192,
            loopdev = ''/dev/loop0'', rootfs_path = \<lambda>p. p @ ''/rootfs''\<rparr>
      \<lparr>imagePath = ''/i.sif'', bundlePath = ''/b'', writable = True\<rparr>
      \<lparr>calls = [], bundles = {''/b''}, loops = {''/dev/loop0''},
       mounts = {(''/dev/loop0'', ''/b/rootfs'')}, overlays = {''/b''}\<rparr>)
     = Some ''delete error: EBUSY''
   \<and> snd (Delete \<lparr>fails = \<lambda>tr c. if c = DeleteOverlay ''/b'' then Some ''EBUSY'' else None,
            part_fs = FsSquash, Fileoff = 4096, Filelen = 8192,
            loopdev = ''/dev/loop0'', rootfs_path = \<lambda>p. p @ ''/rootfs''\<rparr>
      \<lparr>imagePath = ''/i.sif'', bundlePath = ''/b'', writable = True\<rparr>
      \<lparr>calls = [], bundles = {''/b''}, loops = {''/dev/loop0''},
       mounts = {(''/dev/loop0'', ''/b/rootfs'')}, overlays = {''/b''}\<rparr>)
     = \<lparr>calls = [DeleteOverlay ''/b''], bundles = {''/b''}, loops = {''/dev/loop0''},
        mounts = {(''/dev/loop0'', ''/b/rootfs'')}, overlays = {''/b''}\<rparr>"
  by (simp add: Delete_def oci_do_def Let_def)

lemma oci_run_append: "oci_run os (xs @ ys) st = oci_run os ys (oci_run os xs st)"
  by (induction xs arbitrary: st) simp_all

lemma Create_fail:
  assumes img: "imagePath s \<noteq> []" and fs: "part_fs os = FsSquash"
    and f: "oci_fails_at os st (create_steps os s) k e"
  shows "Create os s st =
     (Some (create_error s (create_steps os s ! k) e),
      oci_run os (take (Suc k) (create_steps os s) @ create_teardown os s (create_steps os s ! k)
                  @ (if k = 0 then [] else [CloseFile])) st)"
proof -
  have "k < 8" using f by (simp add: oci_fails_at_def create_steps_def split: if_splits)
  then consider "k = 0" | "k = 1" | "k = 2" | "k = 3" | "k = 4" | "k = 5" | "k = 6" | "k = 7"
    by linarith
  then show ?thesis
  proof cases
    case 1 with img fs f show ?thesis
      by (simp add: create_steps_def oci_fails_at_0 Create_def oci_do_fail)
  next
    case 2 with img fs f show ?thesis
      by (simp add: create_steps_def eval_nat_numeral oci_fails_at_Suc oci_fails_at_0 Create_def
            Create_opened_def oci_do_fail oci_do_ok)
  next
    case 3 with img fs f show ?thesis
      by (simp add: create_steps_def eval_nat_numeral oci_fails_at_Suc oci_fails_at_0 Create_def
            Create_opened_def oci_do_fail oci_do_ok)
  next
    case 4 with img fs f show ?thesis
      by (simp add: create_steps_def eval_nat_numeral oci_fails_at_Suc oci_fails_at_0 Create_def
            Create_opened_def oci_do_fail oci_do_ok)
  next
    case 5 with img fs f show ?thesis
      by (simp add: create_steps_def eval_nat_numeral oci_fails_at_Suc oci_fails_at_0 Create_def
            Create_opened_def oci_do_fail oci_do_ok)
  next
    case 6 with img fs f show ?thesis
      by (simp add: create_steps_def eval_nat_numeral oci_fails_at_Suc oci_fails_at_0 Create_def
            Create_opened_def oci_do_fail oci_do_ok)
  next
    case 7 with img fs f show ?thesis
      by (simp add: create_steps_def eval_nat_numeral oci_fails_at_Suc oci_fails_at_0 Create_def
            Create_opened_def oci_do_fail oci_do_ok Let_def)
  next
    case 8 with img fs f show ?thesis
      by (simp add: create_steps_def eval_nat_numeral oci_fails_at_Suc oci_fails_at_0 Create_def
            Create_opened_def oci_do_fail oci_do_ok Let_def split: if_splits)
  qed
qed

lemma Create_ok:
  assumes img: "imagePath s \<noteq> []" and fs: "part_fs os = FsSquash"
    and f: "oci_all_ok os st (create_steps os s)"
  shows "Create os s st = (None, oci_run os (create_steps os s @ [CloseFile]) st)"
  using assms
  by (simp add: create_steps_def oci_all_ok_Cons Create_def
            Create_opened_def oci_do_ok Let_def split: if_splits)

lemma oci_try_ok:
  "fails os (calls st) c = None \<Longrightarrow> oci_try os c st = oci_effect os c (st\<lparr>calls := calls st @ [c]\<rparr>)"
  by (simp add: oci_try_def oci_do_def Let_def)

lemma oci_try_fail:
  "fails os (calls st) c = Some e \<Longrightarrow> oci_try os c st = st\<lparr>calls := calls st @ [c]\<rparr>"
  by (simp add: oci_try_def oci_do_def Let_def)

lemma oci_try_CloseFile: "oci_try os CloseFile st = st\<lparr>calls := calls st @ [CloseFile]\<rparr>"
  by (simp add: oci_try_def oci_do_def Let_def)

lemma Create_teardown_state:
  assumes img: "imagePath s \<noteq> []" and fs: "part_fs os = FsSquash"
    and f: "oci_fails_at os st (create_steps os s) k e" and k: "5 \<le> k"
    and t: "oci_all_ok os (oci_run os (take (Suc k) (create_steps os s)) st)
              (create_teardown os s (create_steps os s ! k))"
  defines "fin \<equiv> oci_run os (take (Suc k) (create_steps os s)
                  @ create_teardown os s (create_steps os s ! k) @ [CloseFile]) st"
  shows "bundlePath s \<notin> bundles fin \<and> mounts fin \<subseteq> mounts st \<and> overlays fin = overlays st
       \<and> (k = 5 \<longrightarrow> loops fin = loops st)
       \<and> (k = 6 \<longrightarrow> loops fin = insert (loopdev os) (loops st))
       \<and> (k = 7 \<longrightarrow> loopdev os \<notin> loops fin
                   \<and> (\<forall>m \<in> mounts fin. snd m \<noteq> rootfs_path os (bundlePath s)))"
proof -
  have "k < 8" using f by (simp add: oci_fails_at_def create_steps_def split: if_splits)
  with k consider "k = 5" | "k = 6" | "k = 7" by linarith
  then show ?thesis
  proof cases
    case 1
    with f t show ?thesis unfolding fin_def
      by (simp add: create_steps_def eval_nat_numeral oci_fails_at_Suc oci_fails_at_0
            oci_all_ok_Cons oci_try_ok oci_try_fail oci_try_CloseFile)
  next
    case 2
    with f t show ?thesis unfolding fin_def
      by (simp add: create_steps_def eval_nat_numeral oci_fails_at_Suc oci_fails_at_0
            oci_all_ok_Cons oci_try_ok oci_try_fail oci_try_CloseFile)
  next
    case 3
    with f have w: "writable s" by (simp add: oci_fails_at_def create_steps_def split: if_splits)
    from 3 w f t show ?thesis unfolding fin_def
      by (auto simp add: create_steps_def eval_nat_numeral oci_fails_at_Suc oci_fails_at_0
            oci_all_ok_Cons oci_try_ok oci_try_fail oci_try_CloseFile)
  qed
qed

text \<open>
  Claim C8, as the code has it. When Create fails at the loop attach, at the mount or at the
  overlay creation, it returns that step's error after these calls, whose results it
  ignores: deletion of the bundle directory (loop attach, mount), or a detaching unmount
  of the root filesystem followed by deletion of the bundle directory (overlay); the
  deferred close of the image file comes last. If these calls succeed, the bundle directory
  is gone, no mount was added, and after an overlay failure nothing is mounted on the
  bundle's root filesystem and the loop device is released with the mount. Create has no call
  that detaches a loop device: after a mount failure the device that CreateLoop attached is
  still attached.
\<close>

theorem Create_failure_teardown:
  assumes "imagePath s \<noteq> []" and "part_fs os = FsSquash"
    and "oci_fails_at os st (create_steps os s) k e" and "5 \<le> k"
  shows "fst (Create os s st) = Some (create_error s (create_steps os s ! k) e)
    \<and> calls (snd (Create os s st)) =
          calls st @ take (Suc k) (create_steps os s)
          @ create_teardown os s (create_steps os s ! k) @ [CloseFile]
    \<and> create_teardown os s (create_steps os s ! k) =
          (if k = 7 then [UnmountFs (rootfs_path os (bundlePath s)) MNT_DETACH] else [])
          @ [DeleteBundle (bundlePath s)]
    \<and> (oci_all_ok os (oci_run os (take (Suc k) (create_steps os s)) st)
           (create_teardown os s (create_steps os s ! k)) \<longrightarrow>
         bundlePath s \<notin> bundles (snd (Create os s st))
         \<and> mounts (snd (Create os s st)) \<subseteq> mounts st
         \<and> overlays (snd (Create os s st)) = overlays st
         \<and> (k = 5 \<longrightarrow> loops (snd (Create os s st)) = loops st)
         \<and> (k = 6 \<longrightarrow> loops (snd (Create os s st)) = insert (loopdev os) (loops st))
         \<and> (k = 7 \<longrightarrow> loopdev os \<notin> loops (snd (Create os s st))
               \<and> (\<forall>m \<in> mounts (snd (Create os s st)). snd m \<noteq> rootfs_path os (bundlePath s))))"
proof -
  note c = Create_fail [OF assms(1,2,3)]
  have "k < 8" using assms(3) by (simp add: oci_fails_at_def create_steps_def split: if_splits)
  with assms(4) consider "k = 5" | "k = 6" | "k = 7" by linarith
  then have td: "create_teardown os s (create_steps os s ! k) =
          (if k = 7 then [UnmountFs (rootfs_path os (bundlePath s)) MNT_DETACH] else [])
          @ [DeleteBundle (bundlePath s)]"
  proof cases
    case 3
    with assms(3) have "writable s"
      by (simp add: oci_fails_at_def create_steps_def split: if_splits)
    with 3 show ?thesis by (simp add: create_steps_def)
  qed (simp_all add: create_steps_def)
  have k0: "k \<noteq> 0" using assms(4) by simp
  have e: "snd (Create os s st) =
      oci_run os (take (Suc k) (create_steps os s)
                  @ create_teardown os s (create_steps os s ! k) @ [CloseFile]) st"
    using c k0 by simp
  have 1: "fst (Create os s st) = Some (create_error s (create_steps os s ! k) e)"
    using c by simp
  have 2: "calls (snd (Create os s st)) =
          calls st @ take (Suc k) (create_steps os s)
          @ create_teardown os s (create_steps os s ! k) @ [CloseFile]"
    unfolding e by (simp add: calls_oci_run)
  have 3: "oci_all_ok os (oci_run os (take (Suc k) (create_steps os s)) st)
           (create_teardown os s (create_steps os s ! k)) \<Longrightarrow>
         bundlePath s \<notin> bundles (snd (Create os s st))
         \<and> mounts (snd (Create os s st)) \<subseteq> mounts st
         \<and> overlays (snd (Create os s st)) = overlays st
         \<and> (k = 5 \<longrightarrow> loops (snd (Create os s st)) = loops st)
         \<and> (k = 6 \<longrightarrow> loops (snd (Create os s st)) = insert (loopdev os) (loops st))
         \<and> (k = 7 \<longrightarrow> loopdev os \<notin> loops (snd (Create os s st))
               \<and> (\<forall>m \<in> mounts (snd (Create os s st)). snd m \<noteq> rootfs_path os (bundlePath s)))"
    unfolding e by (rule Create_teardown_state [OF assms])
  from 1 2 td 3 show ?thesis by blast
qed

theorem Create_failure_teardown_witness:
  "fst (Create \<lparr>fails = \<lambda>tr c. if c = CreateOverlay ''/b'' then Some ''ENOSPC'' else None,
            part_fs = FsSquash, Fileoff = 4096, Filelen = 8192,
            loopdev = ''/dev/loop0'', rootfs_path = \<lambda>p. p @ ''/rootfs''\<rparr>
      \<lparr>imagePath = ''/i.sif'', bundlePath = ''/b'', writable = True\<rparr>
      \<lparr>calls = [], bundles = {}, loops = {}, mounts = {}, overlays = {}\<rparr>)
     = Some ''failed to create overlay: ENOSPC''
   \<and> calls (snd (Create \<lparr>fails = \<lambda>tr c. if c = CreateOverlay ''/b'' then Some ''ENOSPC'' else None,
            part_fs = FsSquash, Fileoff = 4096, Filelen = 8192,
            loopdev = ''/dev/loop0'', rootfs_path = \<lambda>p. p @ ''/rootfs''\<rparr>
      \<lparr>imagePath = ''/i.sif'', bundlePath = ''/b'', writable = True\<rparr>
      \<lparr>calls = [], bundles = {}, loops = {}, mounts = {}, overlays = {}\<rparr>))
     = [OpenFile ''/i.sif'' True, LoadContainerFp False, GetPartPrimSys, GetFsType,
         CreateBundle ''/b'', CreateLoop 4096 8192,
         MountFs ''/dev/loop0'' ''/b/rootfs'' ''squashfs'' MS_RDONLY ''errors=remount-ro'',
         CreateOverlay ''/b'', UnmountFs ''/b/rootfs'' MNT_DETACH, DeleteBundle ''/b'', CloseFile]
   \<and> ''/b'' \<notin> bundles (snd (Create \<lparr>fails = \<lambda>tr c. if c = CreateOverlay ''/b'' then Some ''ENOSPC'' else None,
            part_fs = FsSquash, Fileoff = 4096, Filelen = 8192,
            loopdev = ''/dev/loop0'', rootfs_path = \<lambda>p. p @ ''/rootfs''\<rparr>
      \<lparr>imagePath = ''/i.sif'', bundlePath = ''/b'', writable = True\<rparr>
      \<lparr>calls = [], bundles = {}, loops = {}, mounts = {}, overlays = {}\<rparr>))
   \<and> ''/dev/loop0'' \<notin> loops (snd (Create \<lparr>fails = \<lambda>tr c. if c = CreateOverlay ''/b'' then Some ''ENOSPC'' else None,
            part_fs = FsSquash, Fileoff = 4096, Filelen = 8192,
            loopdev = ''/dev/loop0'', rootfs_path = \<lambda>p. p @ ''/rootfs''\<rparr>
      \<lparr>imagePath = ''/i.sif'', bundlePath = ''/b'', writable = True\<rparr>
      \<lparr>calls = [], bundles = {}, loops = {}, mounts = {}, overlays = {}\<rparr>))
   \<and> mounts (snd (Create \<lparr>fails = \<lambda>tr c. if c = CreateOverlay ''/b'' then Some ''ENOSPC'' else None,
            part_fs = FsSquash, Fileoff = 4096, Filelen = 8192,
            loopdev = ''/dev/loop0'', rootfs_path = \<lambda>p. p @ ''/rootfs''\<rparr>
      \<lparr>imagePath = ''/i.sif'', bundlePath = ''/b'', writable = True\<rparr>
      \<lparr>calls = [], bundles = {}, loops = {}, mounts = {}, overlays = {}\<rparr>)) = {}"
proof -
  let ?os = "\<lparr>fails = \<lambda>tr c. if c = CreateOverlay ''/b'' then Some ''ENOSPC'' else None,
            part_fs = FsSquash, Fileoff = 4096, Filelen = 8192,
            loopdev = ''/dev/loop0'', rootfs_path = \<lambda>p. p @ ''/rootfs''\<rparr>"
  let ?s = "\<lparr>imagePath = ''/i.sif'', bundlePath = ''/b'', writable = True\<rparr>"
  let ?st = "\<lparr>calls = [], bundles = {}, loops = {}, mounts = {}, overlays = {}\<rparr>"
  have 1: "imagePath ?s \<noteq> []" and 2: "part_fs ?os = FsSquash" and 4: "(5::nat) \<le> 7"
    by simp_all
  have 3: "oci_fails_at ?os ?st (create_steps ?os ?s) 7 ''ENOSPC''"
    by (simp add: create_steps_def eval_nat_numeral oci_fails_at_Suc oci_fails_at_0)
  have 5: "oci_all_ok ?os (oci_run ?os (take (Suc 7) (create_steps ?os ?s)) ?st)
             (create_teardown ?os ?s (create_steps ?os ?s ! 7))"
    by (simp add: create_steps_def oci_all_ok_Cons)
  show ?thesis
    using Create_failure_teardown [OF 1 2 3 4] 5
    by (simp add: create_steps_def)
qed

theorem Create_mount_failure_counterexample:
  "fst (Create \<lparr>fails = \<lambda>tr c. if c = MountFs ''/dev/loop0'' ''/b/rootfs'' ''squashfs'' MS_RDONLY ''errors=remount-ro'' then Some ''ENODEV'' else None,
            part_fs = FsSquash, Fileoff = 4096, Filelen = 8192,
            loopdev = ''/dev/loop0'', rootfs_path = \<lambda>p. p @ ''/rootfs''\<rparr>
      \<lparr>imagePath = ''/i.sif'', bundlePath = ''/b'', writable = True\<rparr>
      \<lparr>calls = [], bundles = {}, loops = {}, mounts = {}, overlays = {}\<rparr>)
     = Some ''failed to mount SIF partition: ENODEV''
   \<and> snd (Create \<lparr>fails = \<lambda>tr c. if c = MountFs ''/dev/loop0'' ''/b/rootfs'' ''squashfs'' MS_RDONLY ''errors=remount-ro'' then Some ''ENODEV'' else None,
            part_fs = FsSquash, Fileoff = 4096, Filelen = 8192,
            loopdev = ''/dev/loop0'', rootfs_path = \<lambda>p. p @ ''/rootfs''\<rparr>
      \<lparr>imagePath = ''/i.sif'', bundlePath = ''/b'', writable = True\<rparr>
      \<lparr>calls = [], bundles = {}, loops = {}, mounts = {}, overlays = {}\<rparr>)
     = \<lparr>calls = [OpenFile ''/i.sif'' True, LoadContainerFp False, GetPartPrimSys, GetFsType,
         CreateBundle ''/b'', CreateLoop 4096 8192,
         MountFs ''/dev/loop0'' ''/b/rootfs'' ''squashfs'' MS_RDONLY ''errors=remount-ro'',
         DeleteBundle ''/b'', CloseFile],
        bundles = {}, loops = {''/dev/loop0''}, mounts = {}, overlays = {}\<rparr>"
  by (simp add: Create_def Create_opened_def oci_do_def oci_try_def Let_def)

lemma RemoveAll_dir_trace: "trace (snd (RemoveAll_dir env p w)) = trace w @ [RemoveAll p]"
  by (simp add: RemoveAll_dir_def blog_def bcall_def split: option.splits)

lemma RemoveAll_dir_None:
  assumes "RemoveAll_dir env p w = (None, w')"
  shows "dirs w' = dirs w - {p}"
    and "removed w' = removed w @ (if p \<in> dirs w then [p] else [])"
  using assms
  by (auto simp: RemoveAll_dir_def blog_def bcall_def split: if_splits option.splits)

lemma RemoveAll_dir_Some:
  assumes "RemoveAll_dir env p w = (Some e, w')"
  shows "dirs w' = dirs w" and "removed w' = removed w" and "p \<in> dirs w"
  using assms
  by (auto simp: RemoveAll_dir_def blog_def bcall_def split: if_splits option.splits)

lemma RemoveAll_dir_absent:
  "p \<notin> dirs w \<Longrightarrow> RemoveAll_dir env p w = (None, w\<lparr>trace := trace w @ [RemoveAll p]\<rparr>)"
  by (simp add: RemoveAll_dir_def blog_def)

lemma Bundle_Remove_trace:
  "trace (snd (Bundle_Remove env bd w)) =
     trace w @ [RemoveAll (RootfsPath bd), RemoveAll (BundleTmpDir bd)]"
proof -
  obtain e1 w1 where 1: "RemoveAll_dir env (RootfsPath bd) w = (e1, w1)" by (cases "RemoveAll_dir env (RootfsPath bd) w")
  obtain e2 w2 where 2: "RemoveAll_dir env (BundleTmpDir bd) w1 = (e2, w2)" by (cases "RemoveAll_dir env (BundleTmpDir bd) w1")
  from RemoveAll_dir_trace [of env "RootfsPath bd" w] 1 have "trace w1 = trace w @ [RemoveAll (RootfsPath bd)]" by simp
  moreover from RemoveAll_dir_trace [of env "BundleTmpDir bd" w1] 2 have "trace w2 = trace w1 @ [RemoveAll (BundleTmpDir bd)]" by simp
  ultimately show ?thesis using 1 2 by (simp add: Bundle_Remove_def)
qed

lemma Bundle_Remove_None:
  assumes "Bundle_Remove env bd w = (None, w')"
  shows "dirs w' = dirs w - {RootfsPath bd, BundleTmpDir bd}"
    and "count_list (removed w') p = count_list (removed w) p +
           (if p \<in> dirs w \<and> p \<in> {RootfsPath bd, BundleTmpDir bd} then 1 else 0)"
proof -
  obtain e1 w1 where 1: "RemoveAll_dir env (RootfsPath bd) w = (e1, w1)" by (cases "RemoveAll_dir env (RootfsPath bd) w")
  obtain e2 w2 where 2: "RemoveAll_dir env (BundleTmpDir bd) w1 = (e2, w2)" by (cases "RemoveAll_dir env (BundleTmpDir bd) w1")
  from assms 1 2 have e: "e1 = None" "e2 = None" "w' = w2"
    by (auto simp: Bundle_Remove_def split: option.splits)
  note a = RemoveAll_dir_None [OF 1 [unfolded e]] and b = RemoveAll_dir_None [OF 2 [unfolded e]]
  show "dirs w' = dirs w - {RootfsPath bd, BundleTmpDir bd}"
    using a b e by auto
  show "count_list (removed w') p = count_list (removed w) p +
           (if p \<in> dirs w \<and> p \<in> {RootfsPath bd, BundleTmpDir bd} then 1 else 0)"
    using a b e by auto
qed

lemma Bundle_Remove_absent:
  assumes "RootfsPath bd \<notin> dirs w" and "BundleTmpDir bd \<notin> dirs w"
  shows "Bundle_Remove env bd w =
     (None, w\<lparr>trace := trace w @ [RemoveAll (RootfsPath bd), RemoveAll (BundleTmpDir bd)]\<rparr>)"
  using assms by (simp add: Bundle_Remove_def RemoveAll_dir_absent)

lemma cleanUp_loop_trace: "\<exists>t. trace (cleanUp_loop env ss w) = trace w @ t"
proof (induction ss arbitrary: w)
  case Nil
  show ?case by simp
next
  case (Cons s ss)
  obtain r w' where r: "Bundle_Remove env (stage_b s) w = (r, w')" by (cases "Bundle_Remove env (stage_b s) w")
  from Bundle_Remove_trace [of env "stage_b s" w] r
  have t: "trace w' = trace w @ [RemoveAll (RootfsPath (stage_b s)), RemoveAll (BundleTmpDir (stage_b s))]" by simp
  show ?case
  proof (cases r)
    case None
    with r t Cons.IH [of w'] show ?thesis by auto
  next
    case (Some e)
    with r t Cons.IH [of "blog (Errorf (''Could not remove bundle: '' @ e)) w'"] show ?thesis
      by (auto simp: blog_def)
  qed
qed

lemma logged_errors_append:
  "trace w' = trace w @ t \<Longrightarrow> trace w'' = trace w' @ t' \<Longrightarrow>
   logged_errors w w'' = filter is_Errorf t @ logged_errors w' w''"
  by (simp add: logged_errors_def)

lemma cleanUp_loop_no_error:
  assumes "logged_errors w (cleanUp_loop env ss w) = []"
  shows "dirs (cleanUp_loop env ss w) = dirs w - set (stage_paths ss)
       \<and> (\<forall>p. count_list (removed (cleanUp_loop env ss w)) p =
              count_list (removed w) p + (if p \<in> dirs w \<and> p \<in> set (stage_paths ss) then 1 else 0))"
  using assms
proof (induction ss arbitrary: w)
  case Nil
  show ?case by (simp add: stage_paths_def)
next
  case (Cons s ss)
  obtain r w' where r: "Bundle_Remove env (stage_b s) w = (r, w')" by (cases "Bundle_Remove env (stage_b s) w")
  from Bundle_Remove_trace [of env "stage_b s" w] r
  have t: "trace w' = trace w @ [RemoveAll (RootfsPath (stage_b s)), RemoveAll (BundleTmpDir (stage_b s))]" by simp
  show ?case
  proof (cases r)
    case (Some e)
    let ?w = "blog (Errorf (''Could not remove bundle: '' @ e)) w'"
    have 1: "trace ?w = trace w @ [RemoveAll (RootfsPath (stage_b s)), RemoveAll (BundleTmpDir (stage_b s)),
                 Errorf (''Could not remove bundle: '' @ e)]"
      using t by (simp add: blog_def)
    obtain t' where 2: "trace (cleanUp_loop env ss ?w) = trace ?w @ t'"
      using cleanUp_loop_trace by blast
    have "cleanUp_loop env (s # ss) w = cleanUp_loop env ss ?w" using r Some by simp
    with logged_errors_append [OF 1 2] Cons.prems show ?thesis by simp
  next
    case None
    obtain t' where 2: "trace (cleanUp_loop env ss w') = trace w' @ t'"
      using cleanUp_loop_trace by blast
    have eq: "cleanUp_loop env (s # ss) w = cleanUp_loop env ss w'" using r None by simp
    with logged_errors_append [OF t 2] Cons.prems
    have "logged_errors w' (cleanUp_loop env ss w') = []" by simp
    from Cons.IH [OF this] Bundle_Remove_None [OF r [unfolded None]] eq
    show ?thesis by (auto simp: stage_paths_def)
  qed
qed

lemma cleanUp_loop_absent:
  assumes "\<forall>p \<in> set (stage_paths ss). p \<notin> dirs w"
  shows "cleanUp_loop env ss w = w\<lparr>trace := trace w @ map RemoveAll (stage_paths ss)\<rparr>"
  using assms
proof (induction ss arbitrary: w)
  case Nil
  show ?case by (simp add: stage_paths_def)
next
  case (Cons s ss)
  let ?w = "w\<lparr>trace := trace w @ [RemoveAll (RootfsPath (stage_b s)), RemoveAll (BundleTmpDir (stage_b s))]\<rparr>"
  from Cons.prems have "Bundle_Remove env (stage_b s) w = (None, ?w)"
    by (intro Bundle_Remove_absent) (simp_all add: stage_paths_def)
  moreover from Cons.prems have "\<forall>p \<in> set (stage_paths ss). p \<notin> dirs ?w"
    by (simp add: stage_paths_def)
  from Cons.IH [OF this] have "cleanUp_loop env ss ?w = ?w\<lparr>trace := trace ?w @ map RemoveAll (stage_paths ss)\<rparr>" .
  ultimately show ?case by (simp add: stage_paths_def)
qed

text \<open>
  Claim C1, as the code has it. The cleanup routine has no guard: every run calls the
  removal of every stage bundle. Let it run twice in a row, without the no-cleanup option.
  If the first run logs no removal error, then after it no working directory of any stage
  bundle exists; each of them that existed before has been removed exactly once when the
  second run is over; and the second run, which issues the same removal calls again,
  changes neither the directories nor the list of removals and logs no error. With the
  no-cleanup option a run removes nothing: it only reports the bundle paths. A removal that
  fails in the first run is tried again by the second, which then logs its error as well.
\<close>

theorem cleanUp_twice:
  "(\<not> NoCleanUp (Conf b) \<and> logged_errors w (cleanUp env b w) = [] \<longrightarrow>
      (\<forall>p \<in> set (bundlePaths b). p \<notin> dirs (cleanUp env b w))
      \<and> (\<forall>p \<in> set (bundlePaths b). p \<in> dirs w \<longrightarrow>
            count_list (removed (cleanUp env b (cleanUp env b w))) p = count_list (removed w) p + 1)
      \<and> dirs (cleanUp env b (cleanUp env b w)) = dirs (cleanUp env b w)
      \<and> removed (cleanUp env b (cleanUp env b w)) = removed (cleanUp env b w)
      \<and> logged_errors (cleanUp env b w) (cleanUp env b (cleanUp env b w)) = []
      \<and> trace (cleanUp env b (cleanUp env b w)) =
          trace (cleanUp env b w) @ map RemoveAll (bundlePaths b))
   \<and> (NoCleanUp (Conf b) \<longrightarrow>
        cleanUp env b w = w\<lparr>trace := trace w @ [Infof (bundlePaths b)]\<rparr>)"
proof (intro conjI impI)
  assume "NoCleanUp (Conf b)"
  then show "cleanUp env b w = w\<lparr>trace := trace w @ [Infof (bundlePaths b)]\<rparr>"
    by (simp add: cleanUp_def blog_def)
next
  assume a: "\<not> NoCleanUp (Conf b) \<and> logged_errors w (cleanUp env b w) = []"
  let ?w1 = "cleanUp env b w"
  from a have c1: "?w1 = cleanUp_loop env (stages b) w" by (simp add: cleanUp_def)
  with a have "logged_errors w (cleanUp_loop env (stages b) w) = []" by simp
  from cleanUp_loop_no_error [OF this] c1
  have d: "dirs ?w1 = dirs w - set (bundlePaths b)"
    and r: "\<And>p. count_list (removed ?w1) p =
              count_list (removed w) p + (if p \<in> dirs w \<and> p \<in> set (bundlePaths b) then 1 else 0)"
    by (simp_all add: bundlePaths_def)
  from d have absent: "\<forall>p \<in> set (stage_paths (stages b)). p \<notin> dirs ?w1"
    by (simp add: bundlePaths_def)
  from a have "cleanUp env b ?w1 = cleanUp_loop env (stages b) ?w1" by (simp add: cleanUp_def)
  with cleanUp_loop_absent [OF absent]
  have c2: "cleanUp env b ?w1 = ?w1\<lparr>trace := trace ?w1 @ map RemoveAll (stage_paths (stages b))\<rparr>"
    by simp
  show "\<forall>p \<in> set (bundlePaths b). p \<notin> dirs ?w1" using d by simp
  show "\<forall>p \<in> set (bundlePaths b). p \<in> dirs w \<longrightarrow>
            count_list (removed (cleanUp env b ?w1)) p = count_list (removed w) p + 1"
    using r c2 by simp
  show "dirs (cleanUp env b ?w1) = dirs ?w1" using c2 by simp
  show "removed (cleanUp env b ?w1) = removed ?w1" using c2 by simp
  show "trace (cleanUp env b ?w1) = trace ?w1 @ map RemoveAll (bundlePaths b)"
    using c2 by (simp add: bundlePaths_def)
  have "filter is_Errorf (map RemoveAll (stage_paths (stages b))) = []"
    by (induction "stage_paths (stages b)") (auto simp: filter_empty_conv)
  then show "logged_errors ?w1 (cleanUp env b ?w1) = []"
    unfolding logged_errors_def c2 by simp
qed

theorem cleanUp_second_run_error_counterexample:
  "cleanUp (example_env\<lparr>bfails := \<lambda>tr c. if c = RemoveAll ''/out/rootfs-id'' \<or> c = RemoveAll ''/tmp/bundle-temp-''
                                        then Some ''EBUSY'' else None\<rparr>)
       \<lparr>stages = [example_stage [] ''/out/rootfs-id'' ''/tmp/bundle-temp-'' zero_Definition zero_Options],
        Conf = \<lparr>Dest = ''/out/c'', Format = ''sandbox'', NoCleanUp = False, Opts = zero_Options\<rparr>\<rparr>
     (cleanUp (example_env\<lparr>bfails := \<lambda>tr c. if c = RemoveAll ''/out/rootfs-id'' \<or> c = RemoveAll ''/tmp/bundle-temp-''
                                        then Some ''EBUSY'' else None\<rparr>)
       \<lparr>stages = [example_stage [] ''/out/rootfs-id'' ''/tmp/bundle-temp-'' zero_Definition zero_Options],
        Conf = \<lparr>Dest = ''/out/c'', Format = ''sandbox'', NoCleanUp = False, Opts = zero_Options\<rparr>\<rparr>
       \<lparr>trace = [], dirs = {''/out/rootfs-id'', ''/tmp/bundle-temp-''}, removed = []\<rparr>)
   = \<lparr>trace = [RemoveAll ''/out/rootfs-id'', RemoveAll ''/tmp/bundle-temp-'',
               Errorf ''Could not remove bundle: EBUSY'',
               RemoveAll ''/out/rootfs-id'', RemoveAll ''/tmp/bundle-temp-'',
               Errorf ''Could not remove bundle: EBUSY''],
      dirs = {''/out/rootfs-id'', ''/tmp/bundle-temp-''}, removed = []\<rparr>
   \<and> logged_errors
       (cleanUp (example_env\<lparr>bfails := \<lambda>tr c. if c = RemoveAll ''/out/rootfs-id'' \<or> c = RemoveAll ''/tmp/bundle-temp-''
                                        then Some ''EBUSY'' else None\<rparr>)
       \<lparr>stages = [example_stage [] ''/out/rootfs-id'' ''/tmp/bundle-temp-'' zero_Definition zero_Options],
        Conf = \<lparr>Dest = ''/out/c'', Format = ''sandbox'', NoCleanUp = False, Opts = zero_Options\<rparr>\<rparr>
       \<lparr>trace = [], dirs = {''/out/rootfs-id'', ''/tmp/bundle-temp-''}, removed = []\<rparr>)
       (cleanUp (example_env\<lparr>bfails := \<lambda>tr c. if c = RemoveAll ''/out/rootfs-id'' \<or> c = RemoveAll ''/tmp/bundle-temp-''
                                        then Some ''EBUSY'' else None\<rparr>)
       \<lparr>stages = [example_stage [] ''/out/rootfs-id'' ''/tmp/bundle-temp-'' zero_Definition zero_Options],
        Conf = \<lparr>Dest = ''/out/c'', Format = ''sandbox'', NoCleanUp = False, Opts = zero_Options\<rparr>\<rparr>
     (cleanUp (example_env\<lparr>bfails := \<lambda>tr c. if c = RemoveAll ''/out/rootfs-id'' \<or> c = RemoveAll ''/tmp/bundle-temp-''
                                        then Some ''EBUSY'' else None\<rparr>)
       \<lparr>stages = [example_stage [] ''/out/rootfs-id'' ''/tmp/bundle-temp-'' zero_Definition zero_Options],
        Conf = \<lparr>Dest = ''/out/c'', Format = ''sandbox'', NoCleanUp = False, Opts = zero_Options\<rparr>\<rparr>
       \<lparr>trace = [], dirs = {''/out/rootfs-id'', ''/tmp/bundle-temp-''}, removed = []\<rparr>))
     = [Errorf ''Could not remove bundle: EBUSY'']"
  by (simp add: logged_errors_def cleanUp_def Bundle_Remove_def RemoveAll_dir_def bcall_def blog_def
          example_env_def example_stage_def)

theorem cleanUp_twice_witness:
  "''/out/rootfs-id'' \<notin> dirs (cleanUp example_env
       \<lparr>stages = [example_stage [] ''/out/rootfs-id'' ''/tmp/bundle-temp-'' zero_Definition zero_Options],
        Conf = \<lparr>Dest = ''/out/c'', Format = ''sandbox'', NoCleanUp = False, Opts = zero_Options\<rparr>\<rparr>
       \<lparr>trace = [], dirs = {''/out/rootfs-id'', ''/tmp/bundle-temp-''}, removed = []\<rparr>)
   \<and> removed (cleanUp example_env
       \<lparr>stages = [example_stage [] ''/out/rootfs-id'' ''/tmp/bundle-temp-'' zero_Definition zero_Options],
        Conf = \<lparr>Dest = ''/out/c'', Format = ''sandbox'', NoCleanUp = False, Opts = zero_Options\<rparr>\<rparr>
      (cleanUp example_env
       \<lparr>stages = [example_stage [] ''/out/rootfs-id'' ''/tmp/bundle-temp-'' zero_Definition zero_Options],
        Conf = \<lparr>Dest = ''/out/c'', Format = ''sandbox'', NoCleanUp = False, Opts = zero_Options\<rparr>\<rparr>
       \<lparr>trace = [], dirs = {''/out/rootfs-id'', ''/tmp/bundle-temp-''}, removed = []\<rparr>))
     = [''/out/rootfs-id'', ''/tmp/bundle-temp-'']
   \<and> cleanUp example_env
       \<lparr>stages = [example_stage [] ''/out/rootfs-id'' ''/tmp/bundle-temp-'' zero_Definition zero_Options],
        Conf = \<lparr>Dest = ''/out/c'', Format = ''sandbox'', NoCleanUp = True, Opts = zero_Options\<rparr>\<rparr>
       \<lparr>trace = [], dirs = {''/out/rootfs-id'', ''/tmp/bundle-temp-''}, removed = []\<rparr>
     = \<lparr>trace = [Infof [''/out/rootfs-id'', ''/tmp/bundle-temp-'']],
        dirs = {''/out/rootfs-id'', ''/tmp/bundle-temp-''}, removed = []\<rparr>"
proof -
  let ?ss = "[example_stage [] ''/out/rootfs-id'' ''/tmp/bundle-temp-'' zero_Definition zero_Options]"
  let ?b = "\<lparr>stages = ?ss,
        Conf = \<lparr>Dest = ''/out/c'', Format = ''sandbox'', NoCleanUp = False, Opts = zero_Options\<rparr>\<rparr>"
  let ?b' = "\<lparr>stages = ?ss,
        Conf = \<lparr>Dest = ''/out/c'', Format = ''sandbox'', NoCleanUp = True, Opts = zero_Options\<rparr>\<rparr>"
  let ?w = "\<lparr>trace = [], dirs = {''/out/rootfs-id'', ''/tmp/bundle-temp-''}, removed = []\<rparr>"
  have w1: "cleanUp example_env ?b ?w =
      \<lparr>trace = [RemoveAll ''/out/rootfs-id'', RemoveAll ''/tmp/bundle-temp-''], dirs = {},
       removed = [''/out/rootfs-id'', ''/tmp/bundle-temp-'']\<rparr>"
    by (simp add: cleanUp_def Bundle_Remove_def RemoveAll_dir_def bcall_def blog_def
          example_env_def example_stage_def)
  have h: "\<not> NoCleanUp (Conf ?b) \<and> logged_errors ?w (cleanUp example_env ?b ?w) = []"
    unfolding w1 by (simp add: logged_errors_def)
  have h': "NoCleanUp (Conf ?b')" by simp
  have p: "bundlePaths ?b = [''/out/rootfs-id'', ''/tmp/bundle-temp-'']"
      "bundlePaths ?b' = [''/out/rootfs-id'', ''/tmp/bundle-temp-'']"
    by (simp_all add: bundlePaths_def stage_paths_def example_stage_def)
  show ?thesis
    using cleanUp_twice [of ?b ?w example_env] h cleanUp_twice [of ?b' ?w example_env] h'
    unfolding p w1 by simp
qed

lemma newBuild_stages_not_Panic: "fst (newBuild_stages env conf ds acc w) \<noteq> Panic e"
  by (induction ds arbitrary: acc w)
     (auto simp: Let_def split: prod.splits option.splits sum.splits)

lemma newBuild_stages_nil_header:
  "d \<in> set ds \<Longrightarrow> Header d = None \<Longrightarrow> \<exists>e w'. newBuild_stages env conf ds acc w = (Err e, w')"
proof (induction ds arbitrary: acc w)
  case Nil
  then show ?case by simp
next
  case (Cons x ds)
  show ?case
  proof (cases "Header x = None")
    case True
    then show ?thesis by simp
  next
    case False
    with Cons.prems have d: "d \<in> set ds" by auto
    from Cons.IH [OF d Cons.prems(2)] False show ?thesis
      by (auto simp: Let_def split: prod.splits option.splits sum.splits)
  qed
qed

lemma newBuild_stages_Ok:
  "newBuild_stages env conf ds acc w = (Ok sts, w') \<Longrightarrow>
   \<exists>new. sts = acc @ new \<and> length new = length ds
     \<and> (\<forall>j < length ds.
           stage_name (new ! j) = mapget (Header (ds ! j)) ''stage''
         \<and> RootfsPath (stage_b (new ! j)) =
             pathJoin env (rootfsParent env conf) (''rootfs-'' @ uuid env (length acc + j))
         \<and> stage_a (new ! j) = None)"
proof (induction ds arbitrary: acc w)
  case Nil
  then show ?case by simp
next
  case (Cons d ds)
  from Cons.prems obtain s w2 where
    rec: "newBuild_stages env conf ds (acc @ [s]) w2 = (Ok sts, w')"
    and s: "stage_name s = mapget (Header d) ''stage''"
       "RootfsPath (stage_b s) = pathJoin env (rootfsParent env conf) (''rootfs-'' @ uuid env (length acc))"
       "stage_a s = None"
    by (auto simp: Let_def rootfsParent_def split: if_splits prod.splits option.splits sum.splits)
  from Cons.IH [OF rec] obtain new where
    n: "sts = (acc @ [s]) @ new" "length new = length ds"
    "\<forall>j < length ds.
           stage_name (new ! j) = mapget (Header (ds ! j)) ''stage''
         \<and> RootfsPath (stage_b (new ! j)) =
             pathJoin env (rootfsParent env conf) (''rootfs-'' @ uuid env (length (acc @ [s]) + j))
         \<and> stage_a (new ! j) = None"
    by blast
  have "\<forall>j < length (d # ds).
           stage_name ((s # new) ! j) = mapget (Header ((d # ds) ! j)) ''stage''
         \<and> RootfsPath (stage_b ((s # new) ! j)) =
             pathJoin env (rootfsParent env conf) (''rootfs-'' @ uuid env (length acc + j))
         \<and> stage_a ((s # new) ! j) = None"
    using s n(3) by (auto simp: nth_Cons split: nat.splits)
  with n(1,2) show ?case by (intro exI [of _ "s # new"]) simp
qed

lemma set_assembler_Ok:
  assumes "set_assembler sts i asm = Ok sts'" and "i = int (length sts) - 1"
  shows "sts \<noteq> [] \<and> length sts' = length sts \<and> stage_a (last sts') = Some asm
       \<and> (\<forall>j < length sts. stage_name (sts' ! j) = stage_name (sts ! j)
                           \<and> stage_b (sts' ! j) = stage_b (sts ! j))"
proof -
  from assms have ne: "sts \<noteq> []" by (auto simp: set_assembler_def split: if_splits)
  then have n: "nat (int (length sts) - 1) = length sts - 1" by (cases sts) simp_all
  from assms ne have "sts' = sts[nat (int (length sts) - 1) :=
      (sts ! nat (int (length sts) - 1))\<lparr>stage_a := Some asm\<rparr>]"
    by (auto simp: set_assembler_def split: if_splits)
  then have s': "sts' = sts[length sts - 1 := (sts ! (length sts - 1))\<lparr>stage_a := Some asm\<rparr>]"
    unfolding n .
  have "last sts' = sts' ! (length sts' - 1)" using ne s' by (simp add: last_conv_nth)
  with s' ne have "stage_a (last sts') = Some asm" by simp
  moreover have "\<forall>j < length sts. stage_name (sts' ! j) = stage_name (sts ! j)
                           \<and> stage_b (sts' ! j) = stage_b (sts ! j)"
    using s' by (auto simp: nth_list_update)
  ultimately show ?thesis using ne s' by simp
qed

lemma finish_build_Ok:
  "finish_build conf r w = (Ok b, w') \<Longrightarrow> \<exists>sts. r = Ok sts \<and> b = \<lparr>stages = sts, Conf = conf\<rparr> \<and> w' = w"
  by (cases r) (auto simp: finish_build_def)

lemma newBuild_Ok:
  assumes "newBuild env defs conf0 w = (Ok b, w')"
  shows "Conf b = newBuild_conf env conf0 \<and> defs \<noteq> [] \<and> length (stages b) = length defs
    \<and> (\<forall>j < length defs.
           stage_name (stages b ! j) = mapget (Header (defs ! j)) ''stage''
         \<and> RootfsPath (stage_b (stages b ! j)) =
             pathJoin env (rootfsParent env (newBuild_conf env conf0)) (''rootfs-'' @ uuid env j))
    \<and> (Format (newBuild_conf env conf0) = ''sandbox'' \<longrightarrow>
          stage_a (last (stages b)) = Some SandboxAssembler)"
proof -
  let ?conf = "newBuild_conf env conf0"
  obtain r w1 where r: "newBuild_stages env ?conf defs [] w = (r, w1)"
    by (cases "newBuild_stages env ?conf defs [] w")
  with assms obtain sts where sts: "r = Ok sts"
    by (cases r) (auto simp: newBuild_def Let_def)
  from newBuild_stages_Ok [OF r [unfolded sts]]
  have len: "length sts = length defs"
    and props: "\<forall>j < length defs.
           stage_name (sts ! j) = mapget (Header (defs ! j)) ''stage''
         \<and> RootfsPath (stage_b (sts ! j)) =
             pathJoin env (rootfsParent env ?conf) (''rootfs-'' @ uuid env j)"
    by auto
  from assms r sts obtain asm where
    fb: "set_assembler sts (int (length defs) - 1) asm = Ok (stages b)" "Conf b = ?conf"
    and sb: "Format ?conf = ''sandbox'' \<longrightarrow> asm = SandboxAssembler"
    by (auto simp: newBuild_def Let_def split: if_splits prod.splits option.splits
             dest!: finish_build_Ok)
  from set_assembler_Ok [OF fb(1)] len
  have "sts \<noteq> []" "length (stages b) = length sts" "stage_a (last (stages b)) = Some asm"
    "\<forall>j < length sts. stage_name (stages b ! j) = stage_name (sts ! j)
                           \<and> stage_b (stages b ! j) = stage_b (sts ! j)"
    by simp_all
  with len props fb(2) sb show ?thesis by auto
qed

lemma newBuild_nil_header:
  assumes "d \<in> set defs" and "Header d = None"
  shows "\<exists>e w'. newBuild env defs conf0 w = (Err e, w')"
proof -
  from newBuild_stages_nil_header [OF assms] obtain e w' where
    "newBuild_stages env (newBuild_conf env conf0) defs [] w = (Err e, w')" by blast
  then show ?thesis by (simp add: newBuild_def Let_def)
qed

lemma newBuild_first_nil_header:
  assumes "Header d = None"
  shows "newBuild env (d # ds) conf0 w = (Err ''multiple stages detected, all must have headers'', w)"
  using assms by (simp add: newBuild_def Let_def)

lemma newBuild_format_irrelevant:
  assumes "Update (Opts conf)"
  shows "newBuild env defs (conf\<lparr>Format := f\<rparr>) w = newBuild env defs conf w"
proof -
  have "newBuild_conf env (conf\<lparr>Format := f\<rparr>) = newBuild_conf env conf"
    using assms by (simp add: newBuild_conf_def Let_def)
  then show ?thesis by (simp add: newBuild_def)
qed

lemma newBuild_two_scratch:
  "newBuild example_env [scratch_def, scratch_def] example_conf empty_world =
     (Ok \<lparr>stages = [example_stage [] ''/out/rootfs-id'' ''/bundle-temp-'' scratch_def zero_Options,
                    (example_stage [] ''/out/rootfs-idx'' ''/bundle-temp-x'' scratch_def zero_Options)
                      \<lparr>stage_a := Some SandboxAssembler\<rparr>],
          Conf = example_conf\<rparr>,
      \<lparr>trace = [NewBundle ''/out/rootfs-id'' [], NewBundle ''/out/rootfs-idx'' []],
       dirs = {''/out/rootfs-id'', ''/bundle-temp-'', ''/out/rootfs-idx'', ''/bundle-temp-x''},
       removed = []\<rparr>)"
  by (auto simp: newBuild_def newBuild_conf_def zero_Options_def example_env_def example_conf_def
      empty_world_def example_stage_def scratch_def_def bcall_def getcp_def mapget_def
      zero_Definition_def set_assembler_def finish_build_def Let_def)

text \<open>
  Claim C9, as the code has it. The constructor fails when a Definition has no header at
  all (a nil header map), whether one Definition is supplied or several; if that is the
  first Definition, the error is "multiple stages detected, all must have headers" and
  nothing has been created. It does not look at the stage name: a stage gets the name its
  header holds under \<^verbatim>\<open>stage\<close>, the empty name if there is none.
\<close>

theorem newBuild_requires_headers:
  "((\<exists>d \<in> set defs. Header d = None) \<longrightarrow> (\<exists>e w'. newBuild env defs conf w = (Err e, w')))
   \<and> (defs \<noteq> [] \<and> Header (hd defs) = None \<longrightarrow>
        newBuild env defs conf w = (Err ''multiple stages detected, all must have headers'', w))
   \<and> (newBuild env defs conf w = (Ok b, w') \<longrightarrow>
        map stage_name (stages b) = map (\<lambda>d. mapget (Header d) ''stage'') defs)"
proof (intro conjI impI)
  assume "\<exists>d \<in> set defs. Header d = None"
  then show "\<exists>e w'. newBuild env defs conf w = (Err e, w')"
    using newBuild_nil_header by blast
next
  assume "defs \<noteq> [] \<and> Header (hd defs) = None"
  then show "newBuild env defs conf w = (Err ''multiple stages detected, all must have headers'', w)"
    using newBuild_first_nil_header [of "hd defs" env "tl defs" conf w] by simp
next
  assume "newBuild env defs conf w = (Ok b, w')"
  from newBuild_Ok [OF this] show "map stage_name (stages b) = map (\<lambda>d. mapget (Header d) ''stage'') defs"
    by (intro nth_equalityI) simp_all
qed

theorem newBuild_requires_headers_witness:
  "(\<exists>e w'. newBuild example_env [scratch_def, zero_Definition] example_conf empty_world = (Err e, w'))
   \<and> newBuild example_env [zero_Definition] example_conf empty_world =
       (Err ''multiple stages detected, all must have headers'', empty_world)
   \<and> [[], []] = map (\<lambda>d. mapget (Header d) ''stage'') [scratch_def, scratch_def]"
proof -
  have 1: "\<exists>d \<in> set [scratch_def, zero_Definition]. Header d = None"
    by (simp add: zero_Definition_def)
  have 2: "[zero_Definition] \<noteq> [] \<and> Header (hd [zero_Definition]) = None"
    by (simp add: zero_Definition_def)
  show ?thesis
    using newBuild_requires_headers [where defs = "[scratch_def, zero_Definition]"
             and env = example_env and conf = example_conf and w = empty_world] 1
          newBuild_requires_headers [where defs = "[zero_Definition]"
             and env = example_env and conf = example_conf and w = empty_world] 2
          newBuild_requires_headers [where defs = "[scratch_def, scratch_def]"
             and env = example_env and conf = example_conf and w = empty_world
             and b = "\<lparr>stages = [example_stage [] ''/out/rootfs-id'' ''/bundle-temp-'' scratch_def zero_Options,
                    (example_stage [] ''/out/rootfs-idx'' ''/bundle-temp-x'' scratch_def zero_Options)
                      \<lparr>stage_a := Some SandboxAssembler\<rparr>],
                  Conf = example_conf\<rparr>"
             and w' = "\<lparr>trace = [NewBundle ''/out/rootfs-id'' [], NewBundle ''/out/rootfs-idx'' []],
       dirs = {''/out/rootfs-id'', ''/bundle-temp-'', ''/out/rootfs-idx'', ''/bundle-temp-x''},
       removed = []\<rparr>"]
          newBuild_two_scratch
    by (simp add: example_stage_def)
qed

theorem newBuild_unnamed_stages_counterexample:
  "newBuild example_env [scratch_def, scratch_def] example_conf empty_world =
     (Ok \<lparr>stages = [example_stage [] ''/out/rootfs-id'' ''/bundle-temp-'' scratch_def zero_Options,
                    (example_stage [] ''/out/rootfs-idx'' ''/bundle-temp-x'' scratch_def zero_Options)
                      \<lparr>stage_a := Some SandboxAssembler\<rparr>],
          Conf = example_conf\<rparr>,
      \<lparr>trace = [NewBundle ''/out/rootfs-id'' [], NewBundle ''/out/rootfs-idx'' []],
       dirs = {''/out/rootfs-id'', ''/bundle-temp-'', ''/out/rootfs-idx'', ''/bundle-temp-x''},
       removed = []\<rparr>)
   \<and> mapget (Header scratch_def) ''stage'' = []"
  using newBuild_two_scratch by (simp add: scratch_def_def mapget_def)

lemma newBuild0_stages_length:
  "newBuild0_stages env conf allow ds acc w = (Ok sts, w') \<Longrightarrow> length sts = length acc + length ds"
proof (induction ds arbitrary: acc w)
  case Nil
  then show ?case by simp
next
  case (Cons d ds)
  from Cons.prems obtain s w2 where
    "newBuild0_stages env conf allow ds (acc @ [s]) w2 = (Ok sts, w')"
    by (auto simp: Let_def split: if_splits prod.splits option.splits sum.splits)
  from Cons.IH [OF this] show ?case by simp
qed

lemma set_assembler0_Ok:
  assumes "set_assembler0 sts (int (length sts) - 1) asm = Ok sts'"
  shows "sts' \<noteq> [] \<and> a0 (last sts') = Some asm"
proof -
  from assms have ne: "sts \<noteq> []" by (auto simp: set_assembler0_def split: if_splits)
  then have n: "nat (int (length sts) - 1) = length sts - 1" by (cases sts) simp_all
  from assms ne have "sts' = sts[nat (int (length sts) - 1) :=
      (sts ! nat (int (length sts) - 1))\<lparr>a0 := Some asm\<rparr>]"
    by (auto simp: set_assembler0_def split: if_splits)
  then have s': "sts' = sts[length sts - 1 := (sts ! (length sts - 1))\<lparr>a0 := Some asm\<rparr>]"
    unfolding n .
  have "last sts' = sts' ! (length sts' - 1)" using ne s' by (simp add: last_conv_nth)
  with s' ne show ?thesis by simp
qed

lemma newBuild0_update:
  assumes "Update (Opts conf)" and "newBuild0 env defs conf allow w = (Ok b, w')"
  shows "Format (Conf0 b) = ''sandbox'' \<and> stages0 b \<noteq> []
       \<and> a0 (last (stages0 b)) = Some SandboxAssembler"
proof -
  have c: "Format (newBuild0_conf conf) = ''sandbox''"
    using assms(1) by (simp add: newBuild0_conf_def)
  obtain r w1 where r: "newBuild0_stages env (newBuild0_conf conf) allow defs [] w = (r, w1)"
    by (cases "newBuild0_stages env (newBuild0_conf conf) allow defs [] w")
  with assms(2) obtain sts where sts: "r = Ok sts"
    by (cases r) (auto simp: newBuild0_def Let_def)
  from newBuild0_stages_length [OF r [unfolded sts]] have len: "length sts = length defs" by simp
  from assms(2) r sts c have
    "set_assembler0 sts (int (length sts) - 1) SandboxAssembler = Ok (stages0 b)"
    and "Conf0 b = newBuild0_conf conf"
    by (auto simp: newBuild0_def Let_def len split: res.splits)
  with set_assembler0_Ok c show ?thesis by auto
qed

lemma newBuild0_format_irrelevant:
  assumes "Update (Opts conf)"
  shows "newBuild0 env defs (conf\<lparr>Format := f\<rparr>) allow w = newBuild0 env defs conf allow w"
proof -
  have "newBuild0_conf (conf\<lparr>Format := f\<rparr>) = newBuild0_conf conf"
    using assms by (simp add: newBuild0_conf_def)
  then show ?thesis by (simp add: newBuild0_def)
qed

lemma newBuild0_update_example:
  "newBuild0 example_env [scratch_def]
     (example_conf\<lparr>Opts := zero_Options\<lparr>Update := True\<rparr>, Format := ''sif''\<rparr>) False empty_world =
     (Ok \<lparr>stages0 = [\<lparr>path0 = ''/bundle-temp-'', recipe0 = scratch_def,
                      opts0 = zero_Options\<lparr>Update := True\<rparr>, c0 = None,
                      a0 = Some SandboxAssembler\<rparr>],
          Conf0 = example_conf\<lparr>Opts := zero_Options\<lparr>Update := True\<rparr>\<rparr>\<rparr>,
      \<lparr>trace = [NewBundle [] ''sbuild''], dirs = {''/bundle-temp-''}, removed = []\<rparr>)"
  by (auto simp: newBuild0_def newBuild0_conf_def zero_Options_def example_env_def example_conf_def
      empty_world_def bcall_def set_assembler0_def Let_def)

lemma newBuild_stages_succeeds:
  assumes "\<forall>tr c. bfails env tr c = None"
    and "\<forall>d \<in> set ds. Header d \<noteq> None"
    and "\<not> Update (Opts conf) \<or> Force (Opts conf) \<longrightarrow> (\<forall>d \<in> set ds. \<exists>cp. conveyorPacker env d = Inr cp)"
  shows "\<exists>sts w'. newBuild_stages env conf ds acc w = (Ok sts, w')"
  using assms(2,3)
proof (induction ds arbitrary: acc w)
  case Nil
  show ?case by simp
next
  case (Cons d ds)
  have h: "Header d \<noteq> None" using Cons.prems(1) by simp
  have rest: "\<forall>d \<in> set ds. Header d \<noteq> None"
    "\<not> Update (Opts conf) \<or> Force (Opts conf) \<longrightarrow> (\<forall>d \<in> set ds. \<exists>cp. conveyorPacker env d = Inr cp)"
    using Cons.prems by simp_all
  note ih = Cons.IH [OF rest]
  show ?case
  proof (cases "\<not> Update (Opts conf) \<or> Force (Opts conf)")
    case True
    with Cons.prems(2) obtain cp where cp: "conveyorPacker env d = Inr cp" by auto
    show ?thesis
      using h True cp assms(1) ih
      by (simp add: bcall_def Let_def split: option.splits)
  next
    case False
    show ?thesis
      using h False assms(1) ih
      by (simp add: bcall_def Let_def split: option.splits)
  qed
qed

lemma newBuild_update_succeeds:
  assumes "Update (Opts conf)" and "defs \<noteq> []"
    and "\<forall>d \<in> set defs. Header d \<noteq> None"
    and "\<forall>tr c. bfails env tr c = None"
    and "Force (Opts conf) \<longrightarrow> (\<forall>d \<in> set defs. \<exists>cp. conveyorPacker env d = Inr cp)"
  shows "\<exists>b w'. newBuild env defs conf w = (Ok b, w')"
proof -
  let ?conf = "newBuild_conf env conf"
  have c: "Format ?conf = ''sandbox''" "Opts ?conf = Opts conf"
    using assms(1) by (simp_all add: newBuild_conf_def Let_def)
  have "\<not> Update (Opts ?conf) \<or> Force (Opts ?conf) \<longrightarrow>
      (\<forall>d \<in> set defs. \<exists>cp. conveyorPacker env d = Inr cp)"
    using assms(1,5) c by simp
  from newBuild_stages_succeeds [OF assms(4,3) this]
  obtain sts w1 where s: "newBuild_stages env ?conf defs [] w = (Ok sts, w1)" by blast
  from newBuild_stages_Ok [OF s] have len: "length sts = length defs" by auto
  with assms(2) have "0 \<le> int (length defs) - 1 \<and> int (length defs) - 1 < int (length sts)"
    by (cases defs) simp_all
  then obtain sts' where "set_assembler sts (int (length defs) - 1) SandboxAssembler = Ok sts'"
    by (simp add: set_assembler_def)
  with s c show ?thesis by (simp add: newBuild_def Let_def finish_build_def)
qed

lemma newBuild0_stages_succeeds:
  assumes "\<forall>tr c. bfails env tr c = None"
    and "\<not> Update (Opts conf) \<or> Force (Opts conf) \<longrightarrow>
       (\<forall>d \<in> set ds. \<exists>cp. getcp d (LibraryURL (Opts conf)) (LibraryAuthToken (Opts conf)) allow = Inr cp)"
  shows "\<exists>sts w'. newBuild0_stages env conf allow ds acc w = (Ok sts, w')"
  using assms(2)
proof (induction ds arbitrary: acc w)
  case Nil
  show ?case by simp
next
  case (Cons d ds)
  have rest: "\<not> Update (Opts conf) \<or> Force (Opts conf) \<longrightarrow>
       (\<forall>d \<in> set ds. \<exists>cp. getcp d (LibraryURL (Opts conf)) (LibraryAuthToken (Opts conf)) allow = Inr cp)"
    using Cons.prems by simp
  note ih = Cons.IH [OF rest]
  show ?case
  proof (cases "\<not> Update (Opts conf) \<or> Force (Opts conf)")
    case True
    with Cons.prems obtain cp where
      cp: "getcp d (LibraryURL (Opts conf)) (LibraryAuthToken (Opts conf)) allow = Inr cp" by auto
    show ?thesis
      using True cp assms(1) ih
      by (simp add: bcall_def Let_def split: option.splits)
  next
    case False
    show ?thesis
      using False assms(1) ih
      by (simp add: bcall_def Let_def split: option.splits)
  qed
qed

lemma newBuild0_update_succeeds:
  assumes "Update (Opts conf)" and "defs \<noteq> []"
    and "\<forall>tr c. bfails env tr c = None"
    and "Force (Opts conf) \<longrightarrow>
       (\<forall>d \<in> set defs. \<exists>cp. getcp d (LibraryURL (Opts conf)) (LibraryAuthToken (Opts conf)) allow = Inr cp)"
  shows "\<exists>b w'. newBuild0 env defs conf allow w = (Ok b, w')"
proof -
  let ?conf = "newBuild0_conf conf"
  have c: "Format ?conf = ''sandbox''" "Opts ?conf = Opts conf"
    using assms(1) by (simp_all add: newBuild0_conf_def)
  have "\<not> Update (Opts ?conf) \<or> Force (Opts ?conf) \<longrightarrow>
       (\<forall>d \<in> set defs. \<exists>cp. getcp d (LibraryURL (Opts ?conf)) (LibraryAuthToken (Opts ?conf)) allow = Inr cp)"
    using assms(1,4) c by simp
  from newBuild0_stages_succeeds [OF assms(3) this]
  obtain sts w1 where s: "newBuild0_stages env ?conf allow defs [] w = (Ok sts, w1)" by blast
  from newBuild0_stages_length [OF s] have len: "length sts = length defs" by simp
  with assms(2) have "0 \<le> int (length defs) - 1 \<and> int (length defs) - 1 < int (length sts)"
    by (cases defs) simp_all
  then obtain sts' where "set_assembler0 sts (int (length defs) - 1) SandboxAssembler = Ok sts'"
    by (simp add: set_assembler0_def)
  with s c show ?thesis by (simp add: newBuild0_def Let_def)
qed

lemma newBuild_update_example:
  "newBuild example_env [scratch_def]
     (example_conf\<lparr>Opts := zero_Options\<lparr>Update := True\<rparr>, Format := ''sif''\<rparr>) empty_world =
     (Ok \<lparr>stages = [(example_stage [] ''/out/rootfs-id'' ''/bundle-temp-'' scratch_def
                       (zero_Options\<lparr>Update := True\<rparr>))
                      \<lparr>stage_c := None, stage_a := Some SandboxAssembler\<rparr>],
          Conf = example_conf\<lparr>Opts := zero_Options\<lparr>Update := True\<rparr>\<rparr>\<rparr>,
      \<lparr>trace = [NewBundle ''/out/rootfs-id'' []],
       dirs = {''/out/rootfs-id'', ''/bundle-temp-''}, removed = []\<rparr>)"
  by (auto simp: newBuild_def newBuild_conf_def zero_Options_def example_env_def example_conf_def
      empty_world_def example_stage_def scratch_def_def bcall_def mapget_def
      zero_Definition_def set_assembler_def finish_build_def Let_def)

text \<open>
  Claim C10. With the update option set, the constructor replaces the requested format by
  "sandbox" before the loop over the definitions: its result does not depend on the format
  the caller asked for. It builds whenever at least one definition is supplied, every
  definition has a header, no call of the surroundings fails and, if force is set as well,
  every definition has a conveyor; the build then says "sandbox" and its last stage carries
  the sandbox assembler, whatever format was requested. Every stage's root filesystem is
  placed beside the destination, the parent directory the sandbox format uses. The older
  constructor in the same file does the same: format-independent result, success under
  the same conditions (it asks for no header), "sandbox" in the configuration, the sandbox
  assembler on the last stage.
\<close>

theorem newBuild_update_forces_sandbox:
  assumes "Update (Opts conf)"
  shows "newBuild env defs (conf\<lparr>Format := f\<rparr>) w = newBuild env defs conf w
    \<and> (newBuild env defs conf w = (Ok b, w') \<longrightarrow>
         Format (Conf b) = ''sandbox'' \<and> stages b \<noteq> []
         \<and> stage_a (last (stages b)) = Some SandboxAssembler
         \<and> (\<forall>j < length (stages b).
               RootfsPath (stage_b (stages b ! j)) =
                 pathJoin env (pathDir env (pathClean env (Dest conf))) (''rootfs-'' @ uuid env j)))
    \<and> newBuild0 env defs (conf\<lparr>Format := f\<rparr>) allow w = newBuild0 env defs conf allow w
    \<and> (newBuild0 env defs conf allow w = (Ok bo, wo) \<longrightarrow>
         Format (Conf0 bo) = ''sandbox'' \<and> stages0 bo \<noteq> []
         \<and> a0 (last (stages0 bo)) = Some SandboxAssembler)
    \<and> (defs \<noteq> [] \<and> (\<forall>d \<in> set defs. Header d \<noteq> None) \<and> (\<forall>tr c. bfails env tr c = None)
         \<and> (Force (Opts conf) \<longrightarrow> (\<forall>d \<in> set defs. \<exists>cp. conveyorPacker env d = Inr cp)) \<longrightarrow>
       (\<exists>b1 w1. newBuild env defs (conf\<lparr>Format := f\<rparr>) w = (Ok b1, w1)
          \<and> Format (Conf b1) = ''sandbox'' \<and> length (stages b1) = length defs
          \<and> stage_a (last (stages b1)) = Some SandboxAssembler))
    \<and> (defs \<noteq> [] \<and> (\<forall>tr c. bfails env tr c = None)
         \<and> (Force (Opts conf) \<longrightarrow>
              (\<forall>d \<in> set defs. \<exists>cp. getcp d (LibraryURL (Opts conf)) (LibraryAuthToken (Opts conf))
                                       allow = Inr cp)) \<longrightarrow>
       (\<exists>b1 w1. newBuild0 env defs (conf\<lparr>Format := f\<rparr>) allow w = (Ok b1, w1)
          \<and> Format (Conf0 b1) = ''sandbox''
          \<and> a0 (last (stages0 b1)) = Some SandboxAssembler))"
proof -
  have 1: "newBuild env defs (conf\<lparr>Format := f\<rparr>) w = newBuild env defs conf w"
    by (rule newBuild_format_irrelevant [OF assms])
  have 2: "newBuild0 env defs (conf\<lparr>Format := f\<rparr>) allow w = newBuild0 env defs conf allow w"
    by (rule newBuild0_format_irrelevant [OF assms])
  have c: "Format (newBuild_conf env conf) = ''sandbox''"
    "Dest (newBuild_conf env conf) = pathClean env (Dest conf)"
    using assms by (simp_all add: newBuild_conf_def Let_def)
  then have p: "rootfsParent env (newBuild_conf env conf) = pathDir env (pathClean env (Dest conf))"
    by (simp add: rootfsParent_def)
  have 3: "Format (Conf b) = ''sandbox'' \<and> stages b \<noteq> []
         \<and> stage_a (last (stages b)) = Some SandboxAssembler
         \<and> length (stages b) = length defs
         \<and> (\<forall>j < length (stages b).
               RootfsPath (stage_b (stages b ! j)) =
                 pathJoin env (pathDir env (pathClean env (Dest conf))) (''rootfs-'' @ uuid env j))"
    if "newBuild env defs conf w = (Ok b, w')" for b w'
    using newBuild_Ok [OF that] c p by auto
  have 4: "Format (Conf0 bo) = ''sandbox'' \<and> stages0 bo \<noteq> []
         \<and> a0 (last (stages0 bo)) = Some SandboxAssembler"
    if "newBuild0 env defs conf allow w = (Ok bo, wo)" for bo wo
    using newBuild0_update [OF assms that] .
  have 5: "\<exists>b1 w1. newBuild env defs (conf\<lparr>Format := f\<rparr>) w = (Ok b1, w1)
          \<and> Format (Conf b1) = ''sandbox'' \<and> length (stages b1) = length defs
          \<and> stage_a (last (stages b1)) = Some SandboxAssembler"
    if h: "defs \<noteq> [] \<and> (\<forall>d \<in> set defs. Header d \<noteq> None) \<and> (\<forall>tr c. bfails env tr c = None)
         \<and> (Force (Opts conf) \<longrightarrow> (\<forall>d \<in> set defs. \<exists>cp. conveyorPacker env d = Inr cp))"
  proof -
    from h newBuild_update_succeeds [OF assms, of defs env w]
    obtain b1 w1 where ok: "newBuild env defs conf w = (Ok b1, w1)" by blast
    with 3 [OF ok] show ?thesis unfolding 1 by blast
  qed
  have 6: "\<exists>b1 w1. newBuild0 env defs (conf\<lparr>Format := f\<rparr>) allow w = (Ok b1, w1)
          \<and> Format (Conf0 b1) = ''sandbox''
          \<and> a0 (last (stages0 b1)) = Some SandboxAssembler"
    if h: "defs \<noteq> [] \<and> (\<forall>tr c. bfails env tr c = None)
         \<and> (Force (Opts conf) \<longrightarrow>
              (\<forall>d \<in> set defs. \<exists>cp. getcp d (LibraryURL (Opts conf)) (LibraryAuthToken (Opts conf))
                                       allow = Inr cp))"
  proof -
    from h newBuild0_update_succeeds [OF assms, of defs env allow w]
    obtain b1 w1 where ok: "newBuild0 env defs conf allow w = (Ok b1, w1)" by blast
    with 4 [OF ok] show ?thesis unfolding 2 by blast
  qed
  from 1 2 3 [of b w'] 4 [of bo wo] 5 6 show ?thesis by blast
qed

theorem newBuild_update_forces_sandbox_witness:
  "newBuild example_env [scratch_def] (example_conf\<lparr>Opts := zero_Options\<lparr>Update := True\<rparr>, Format := ''sif''\<rparr>) empty_world =
     (Ok \<lparr>stages = [(example_stage [] ''/out/rootfs-id'' ''/bundle-temp-'' scratch_def
                       (zero_Options\<lparr>Update := True\<rparr>))
                      \<lparr>stage_c := None, stage_a := Some SandboxAssembler\<rparr>],
          Conf = example_conf\<lparr>Opts := zero_Options\<lparr>Update := True\<rparr>\<rparr>\<rparr>,
      \<lparr>trace = [NewBundle ''/out/rootfs-id'' []],
       dirs = {''/out/rootfs-id'', ''/bundle-temp-''}, removed = []\<rparr>)
   \<and> Format (Conf \<lparr>stages = [(example_stage [] ''/out/rootfs-id'' ''/bundle-temp-'' scratch_def
                       (zero_Options\<lparr>Update := True\<rparr>))
                      \<lparr>stage_c := None, stage_a := Some SandboxAssembler\<rparr>],
          Conf = example_conf\<lparr>Opts := zero_Options\<lparr>Update := True\<rparr>\<rparr>\<rparr>) = ''sandbox''
   \<and> stage_a (last (stages \<lparr>stages = [(example_stage [] ''/out/rootfs-id'' ''/bundle-temp-'' scratch_def
                       (zero_Options\<lparr>Update := True\<rparr>))
                      \<lparr>stage_c := None, stage_a := Some SandboxAssembler\<rparr>],
          Conf = example_conf\<lparr>Opts := zero_Options\<lparr>Update := True\<rparr>\<rparr>\<rparr>)) = Some SandboxAssembler
   \<and> newBuild0 example_env [scratch_def] (example_conf\<lparr>Opts := zero_Options\<lparr>Update := True\<rparr>, Format := ''sif''\<rparr>) False empty_world =
     (Ok \<lparr>stages0 = [\<lparr>path0 = ''/bundle-temp-'', recipe0 = scratch_def,
                      opts0 = zero_Options\<lparr>Update := True\<rparr>, c0 = None,
                      a0 = Some SandboxAssembler\<rparr>],
          Conf0 = example_conf\<lparr>Opts := zero_Options\<lparr>Update := True\<rparr>\<rparr>\<rparr>,
      \<lparr>trace = [NewBundle [] ''sbuild''], dirs = {''/bundle-temp-''}, removed = []\<rparr>)
   \<and> a0 (last (stages0 \<lparr>stages0 = [\<lparr>path0 = ''/bundle-temp-'', recipe0 = scratch_def,
                      opts0 = zero_Options\<lparr>Update := True\<rparr>, c0 = None,
                      a0 = Some SandboxAssembler\<rparr>],
          Conf0 = example_conf\<lparr>Opts := zero_Options\<lparr>Update := True\<rparr>\<rparr>\<rparr>)) = Some SandboxAssembler"
proof -
  let ?conf = "example_conf\<lparr>Opts := zero_Options\<lparr>Update := True\<rparr>\<rparr>"
  have u: "Update (Opts ?conf)" by simp
  have h: "[scratch_def] \<noteq> [] \<and> (\<forall>d \<in> set [scratch_def]. Header d \<noteq> None)
      \<and> (\<forall>tr c. bfails example_env tr c = None)
      \<and> (Force (Opts ?conf) \<longrightarrow> (\<forall>d \<in> set [scratch_def]. \<exists>cp. conveyorPacker example_env d = Inr cp))"
    by (simp add: scratch_def_def example_env_def example_conf_def zero_Options_def)
  have h0: "[scratch_def] \<noteq> [] \<and> (\<forall>tr c. bfails example_env tr c = None)
      \<and> (Force (Opts ?conf) \<longrightarrow>
              (\<forall>d \<in> set [scratch_def]. \<exists>cp. getcp d (LibraryURL (Opts ?conf)) (LibraryAuthToken (Opts ?conf))
                                       False = Inr cp))"
    by (simp add: example_env_def example_conf_def zero_Options_def)
  from newBuild_update_forces_sandbox [OF u, where env = example_env and defs = "[scratch_def]"
             and f = "''sif''" and w = empty_world and allow = False
             and b = "\<lparr>stages = [(example_stage [] ''/out/rootfs-id'' ''/bundle-temp-'' scratch_def
                       (zero_Options\<lparr>Update := True\<rparr>))
                      \<lparr>stage_c := None, stage_a := Some SandboxAssembler\<rparr>],
          Conf = example_conf\<lparr>Opts := zero_Options\<lparr>Update := True\<rparr>\<rparr>\<rparr>"
             and w' = "\<lparr>trace = [NewBundle ''/out/rootfs-id'' []],
       dirs = {''/out/rootfs-id'', ''/bundle-temp-''}, removed = []\<rparr>"
             and bo = "\<lparr>stages0 = [\<lparr>path0 = ''/bundle-temp-'', recipe0 = scratch_def,
                      opts0 = zero_Options\<lparr>Update := True\<rparr>, c0 = None,
                      a0 = Some SandboxAssembler\<rparr>],
          Conf0 = example_conf\<lparr>Opts := zero_Options\<lparr>Update := True\<rparr>\<rparr>\<rparr>"
             and wo = "\<lparr>trace = [NewBundle [] ''sbuild''], dirs = {''/bundle-temp-''}, removed = []\<rparr>"] h h0
  have ex: "\<exists>b1 w1. newBuild example_env [scratch_def] (example_conf\<lparr>Opts := zero_Options\<lparr>Update := True\<rparr>, Format := ''sif''\<rparr>) empty_world = (Ok b1, w1)
          \<and> Format (Conf b1) = ''sandbox'' \<and> length (stages b1) = length [scratch_def]
          \<and> stage_a (last (stages b1)) = Some SandboxAssembler"
    and ex0: "\<exists>b1 w1. newBuild0 example_env [scratch_def] (example_conf\<lparr>Opts := zero_Options\<lparr>Update := True\<rparr>, Format := ''sif''\<rparr>) False empty_world = (Ok b1, w1)
          \<and> Format (Conf0 b1) = ''sandbox''
          \<and> a0 (last (stages0 b1)) = Some SandboxAssembler"
    by blast+
  from ex ex0 newBuild_update_example newBuild0_update_example
  show ?thesis by (auto simp: example_conf_def)
qed

lemma findStageIndex_from_Inl:
  "findStageIndex_from ss i n = Inl e \<longleftrightarrow>
     n \<notin> stage_name ` set ss \<and> e = ''stage '' @ n @ '' was not found''"
  by (induction ss arbitrary: i) auto

lemma findStageIndex_from_Inr:
  "findStageIndex_from ss i n = Inr k \<longleftrightarrow>
     i \<le> k \<and> k - i < length ss \<and> stage_name (ss ! (k - i)) = n
     \<and> (\<forall>j < k - i. stage_name (ss ! j) \<noteq> n)"
proof (induction ss arbitrary: i)
  case Nil
  show ?case by simp
next
  case (Cons s ss)
  show ?case
  proof (cases "n = stage_name s")
    case True
    then show ?thesis by (cases "k - i") auto
  next
    case False
    have "findStageIndex_from (s # ss) i n = Inr k \<longleftrightarrow> findStageIndex_from ss (Suc i) n = Inr k"
      using False by simp
    also have "\<dots> \<longleftrightarrow> Suc i \<le> k \<and> k - Suc i < length ss \<and> stage_name (ss ! (k - Suc i)) = n
         \<and> (\<forall>j < k - Suc i. stage_name (ss ! j) \<noteq> n)"
      by (rule Cons.IH)
    also have "\<dots> \<longleftrightarrow> i \<le> k \<and> k - i < length (s # ss) \<and> stage_name ((s # ss) ! (k - i)) = n
         \<and> (\<forall>j < k - i. stage_name ((s # ss) ! j) \<noteq> n)"
    proof (cases "k - i")
      case 0
      with False show ?thesis by auto
    next
      case (Suc m)
      then have m: "k - Suc i = m" "Suc i \<le> k" "i \<le> k" by simp_all
      show ?thesis unfolding Suc m(1) using m(2,3) False
        by (auto simp: nth_Cons less_Suc_eq_0_disj split: nat.splits)
    qed
    finally show ?thesis .
  qed
qed

lemma findStageIndex_linear:
  "(findStageIndex b n = Inr k \<longleftrightarrow>
      k < length (stages b) \<and> stage_name (stages b ! k) = n
      \<and> (\<forall>j < k. stage_name (stages b ! j) \<noteq> n))
   \<and> (findStageIndex b n = Inl e \<longleftrightarrow>
      n \<notin> stage_name ` set (stages b) \<and> e = ''stage '' @ n @ '' was not found'')"
  unfolding findStageIndex_def
  using findStageIndex_from_Inr [of "stages b" 0 n k] findStageIndex_from_Inl [of "stages b" 0 n e]
  by simp

lemma copyFiles_loop_append:
  "copyFiles_loop env b s (pre @ rest) w =
     (case copyFiles_loop env b s pre w of
        (Ok u, w') \<Rightarrow> copyFiles_loop env b s rest w'
      | (r, w') \<Rightarrow> (r, w'))"
proof (induction pre arbitrary: w)
  case Nil
  show ?case by simp
next
  case (Cons f pre)
  show ?case
    by (simp add: Cons.IH split: sum.splits prod.splits res.splits)
qed

lemma Fields_Nil: "Fields [] = []"
  by (simp add: Fields_def)

lemma copyFiles_loop_unknown:
  assumes "Fields (Args f) = [x, n]" and "n \<notin> stage_name ` set (stages b)"
  shows "copyFiles_loop env b s (f # post) w = (Err (''stage '' @ n @ '' was not found''), w)"
proof -
  from assms(1) have ne: "Args f \<noteq> []" using Fields_Nil by auto
  from assms(2) have "findStageIndex b n = Inl (''stage '' @ n @ '' was not found'')"
    using findStageIndex_linear by blast
  with ne assms(1) show ?thesis by simp
qed

lemma Full_bootstrap_cases:
  "Full_bootstrap env b i s w =
    (if Update (BundleOpts (stage_b s)) \<and> \<not> Force (BundleOpts (stage_b s)) \<and> Suc i = length (stages b)
     then (case bcall env (GetLocalPacker (Dest (Conf b)) (RootfsPath (stage_b s))) w of
             (Some e, w1) \<Rightarrow> (Err e, w1)
           | (None, w1) \<Rightarrow>
               (case bcall env (LocalPack (RootfsPath (stage_b s))) w1 of
                  (Some e, w2) \<Rightarrow> (Err e, w2)
                | (None, w2) \<Rightarrow> (Ok (), w2)))
     else if ImgCache (Opts (Conf b)) = None then (Err ''undefined image cache'', w)
     else (case stage_c s of
             None \<Rightarrow> (Panic ''invalid memory address or nil pointer dereference'', w)
           | Some cp \<Rightarrow>
               (case bcall env (ConveyorGet cp (RootfsPath (stage_b s))) w of
                  (Some e, w1) \<Rightarrow> (Err (''conveyor failed to get: '' @ e), w1)
                | (None, w1) \<Rightarrow>
                    (case bcall env (ConveyorPack cp (RootfsPath (stage_b s))) w1 of
                       (Some e, w2) \<Rightarrow> (Err (''packer failed to pack: '' @ e), w2)
                     | (None, w2) \<Rightarrow> (Ok (), w2)))))"
proof -
  have "int i = int (length (stages b)) - 1 \<longleftrightarrow> Suc i = length (stages b)" by auto
  then show ?thesis by (simp add: Full_bootstrap_def Let_def)
qed

lemma engineRequired_append_post:
  "engineRequired (Recipe (stage_b s)) \<Longrightarrow> engineRequired (Recipe (stage_b (append_post env s)))"
  by (auto simp: engineRequired_def append_post_def)

lemma runBuildEngine_unprivileged:
  "uid env \<noteq> 0 \<Longrightarrow> runBuildEngine env bd w = (Some privilege_error, w)"
  by (simp add: runBuildEngine_def)

lemma Full_engine_unprivileged:
  "uid env \<noteq> 0 \<Longrightarrow> engineRequired (Recipe (stage_b s)) \<Longrightarrow>
   Full_engine env s w = (Err (''while running engine: '' @ privilege_error), w)"
  by (simp add: Full_engine_def runBuildEngine_unprivileged)

lemma Full_stage_Ok:
  "Full_stage env b i w = (Ok b', w') \<Longrightarrow>
   b' = b\<lparr>stages := (stages b)[i := append_post env (stages b ! i)]\<rparr>
   \<and> (\<exists>w4 w5. Full_engine env (append_post env (stages b ! i)) w4 = (Ok (), w5))"
  unfolding Full_stage_def Let_def
  by (auto split: prod.splits option.splits res.splits)

lemma Full_stage_unprivileged:
  assumes "uid env \<noteq> 0" and "engineRequired (Recipe (stage_b (stages b ! i)))"
  shows "fst (Full_stage env b i w) \<noteq> Ok b'"
proof
  assume "fst (Full_stage env b i w) = Ok b'"
  then obtain w' where "Full_stage env b i w = (Ok b', w')"
    by (cases "Full_stage env b i w") simp
  from Full_stage_Ok [OF this] obtain w4 w5 where
    "Full_engine env (append_post env (stages b ! i)) w4 = (Ok (), w5)" by blast
  with Full_engine_unprivileged [OF assms(1) engineRequired_append_post [OF assms(2)]]
  show False by simp
qed

lemma Full_loop_unprivileged:
  assumes "uid env \<noteq> 0"
    and "\<exists>i \<in> set is. i < length (stages b) \<and> engineRequired (Recipe (stage_b (stages b ! i)))"
  shows "fst (Full_loop env b is w) \<noteq> Ok b'"
  using assms(2)
proof (induction "is" arbitrary: b w)
  case Nil
  then show ?case by simp
next
  case (Cons i0 "is")
  obtain r w1 where st: "Full_stage env b i0 w = (r, w1)" by (cases "Full_stage env b i0 w")
  show ?case
  proof (cases r)
    case (Ok b1)
    from Full_stage_Ok [OF st [unfolded Ok]]
    have b1: "b1 = b\<lparr>stages := (stages b)[i0 := append_post env (stages b ! i0)]\<rparr>" by blast
    have keep: "\<And>i. i < length (stages b) \<Longrightarrow> engineRequired (Recipe (stage_b (stages b ! i)))
        \<Longrightarrow> i < length (stages b1) \<and> engineRequired (Recipe (stage_b (stages b1 ! i)))"
    proof -
      fix i assume "i < length (stages b)" "engineRequired (Recipe (stage_b (stages b ! i)))"
      then show "i < length (stages b1) \<and> engineRequired (Recipe (stage_b (stages b1 ! i)))"
        unfolding b1 by (cases "i = i0") (simp_all add: engineRequired_append_post)
    qed
    from Cons.prems obtain i where i: "i \<in> set (i0 # is)" "i < length (stages b)"
      "engineRequired (Recipe (stage_b (stages b ! i)))" by blast
    have "i \<noteq> i0"
    proof
      assume "i = i0"
      with i(3) Full_stage_unprivileged [OF assms(1), of b i0 w b1] st Ok show False by simp
    qed
    with i(1) have "i \<in> set is" by simp
    with keep [OF i(2,3)]
    have "\<exists>i \<in> set is. i < length (stages b1) \<and> engineRequired (Recipe (stage_b (stages b1 ! i)))"
      by blast
    from Cons.IH [OF this] st Ok show ?thesis by simp
  next
    case (Err e)
    with st show ?thesis by simp
  next
    case (Panic e)
    with st show ?thesis by simp
  qed
qed

lemma Full_unprivileged:
  assumes "uid env \<noteq> 0" and "s \<in> set (stages b)" and "engineRequired (Recipe (stage_b s))"
  shows "fst (Full env b w) \<noteq> Ok b'"
proof -
  from assms(2) obtain i where i: "i < length (stages b)" "stages b ! i = s"
    by (auto simp: in_set_conv_nth)
  then have "\<exists>i \<in> set [0 ..< length (stages b)]. i < length (stages b)
      \<and> engineRequired (Recipe (stage_b (stages b ! i)))"
    using assms(3) by auto
  from Full_loop_unprivileged [OF assms(1) this]
  have l: "\<And>b1. fst (Full_loop env b [0 ..< length (stages b)] w) \<noteq> Ok b1" .
  obtain r w1 where r: "Full_loop env b [0 ..< length (stages b)] w = (r, w1)"
    by (cases "Full_loop env b [0 ..< length (stages b)] w")
  have "fst (Full_body env b w) \<noteq> Ok b'"
  proof (cases r)
    case (Ok b1)
    with l [of b1] r show ?thesis by simp
  qed (simp_all add: Full_body_def r)
  then show ?thesis by (cases "Full_body env b w") (simp add: Full_def)
qed

lemma no_engine_refl [simp]: "no_engine w w"
  by (simp add: no_engine_def)

lemma no_engine_trans: "no_engine w w' \<Longrightarrow> no_engine w' w'' \<Longrightarrow> no_engine w w''"
  by (auto simp: no_engine_def)

lemma no_engine_bcall: "\<not> engine_call c \<Longrightarrow> bcall env c w = (r, w') \<Longrightarrow> no_engine w w'"
  by (auto simp: no_engine_def bcall_def)

lemma no_engine_blog: "\<not> engine_call c \<Longrightarrow> no_engine w (blog c w)"
  by (auto simp: no_engine_def blog_def)

lemma no_engine_Full_bootstrap: "Full_bootstrap env b i s w = (r, w') \<Longrightarrow> no_engine w w'"
  unfolding Full_bootstrap_def Let_def
  by (auto split: if_splits prod.splits option.splits
           dest!: no_engine_bcall [rotated] intro: no_engine_trans)

lemma no_engine_copy_transfers: "copy_transfers env sr dr ts w = (r, w') \<Longrightarrow> no_engine w w'"
proof (induction ts arbitrary: w)
  case Nil
  then show ?case by simp
next
  case (Cons t ts)
  show ?case
  proof (cases "Src t = []")
    case True
    with Cons.prems Cons.IH [of "blog (Warningf ''Attempt to copy file with no name, skipping.'') w"]
    show ?thesis
      using no_engine_blog [of "Warningf ''Attempt to copy file with no name, skipping.''" w]
      by (auto intro: no_engine_trans)
  next
    case False
    obtain e w1 where c: "bcall env (FilesCopy (AddPrefix env sr (Src t))
        (AddPrefix env dr (if Dst t = [] then Src t else Dst t))) w = (e, w1)"
      by (cases "bcall env (FilesCopy (AddPrefix env sr (Src t))
        (AddPrefix env dr (if Dst t = [] then Src t else Dst t))) w")
    from no_engine_bcall [OF _ c] have 1: "no_engine w w1" by simp
    show ?thesis
    proof (cases e)
      case None
      with False c Cons.prems have "copy_transfers env sr dr ts w1 = (r, w')" by (simp add: Let_def)
      from Cons.IH [OF this] 1 show ?thesis by (rule no_engine_trans [rotated])
    next
      case (Some x)
      with False c Cons.prems 1 show ?thesis by (simp add: Let_def)
    qed
  qed
qed

lemma no_engine_copyFiles_loop: "copyFiles_loop env b s fs w = (r, w') \<Longrightarrow> no_engine w w'"
proof (induction fs arbitrary: w)
  case Nil
  then show ?case by simp
next
  case (Cons f fs)
  show ?case
  proof (cases "Args f = [] \<or> length (Fields (Args f)) \<noteq> 2")
    case True
    with Cons.prems have "copyFiles_loop env b s fs w = (r, w')" by (auto split: if_splits)
    then show ?thesis by (rule Cons.IH)
  next
    case False
    show ?thesis
    proof (cases "findStageIndex b (Fields (Args f) ! 1)")
      case (Inl e)
      with False Cons.prems show ?thesis by auto
    next
      case (Inr k)
      obtain r1 w1 where t: "copy_transfers env (RootfsPath (stage_b (stages b ! k)))
                    (RootfsPath (stage_b s)) (Files f) w = (r1, w1)"
        by (cases "copy_transfers env (RootfsPath (stage_b (stages b ! k)))
                    (RootfsPath (stage_b s)) (Files f) w")
      note 1 = no_engine_copy_transfers [OF t]
      show ?thesis
      proof (cases r1)
        case (Ok u)
        with False Inr t Cons.prems have "copyFiles_loop env b s fs w1 = (r, w')" by auto
        from Cons.IH [OF this] 1 show ?thesis by (rule no_engine_trans [rotated])
      next
        case (Err e)
        with False Inr t Cons.prems 1 show ?thesis by auto
      next
        case (Panic e)
        with False Inr t Cons.prems 1 show ?thesis by auto
      qed
    qed
  qed
qed

lemma no_engine_Full_copy: "Full_copy env b s w = (r, w') \<Longrightarrow> no_engine w w'"
  unfolding Full_copy_def copyFiles_def
  by (auto split: if_splits prod.splits res.splits dest: no_engine_copyFiles_loop)

lemma no_engine_Full_engine:
  "uid env \<noteq> 0 \<Longrightarrow> Full_engine env s w = (r, w') \<Longrightarrow> no_engine w w'"
  by (auto simp: Full_engine_def runBuildEngine_unprivileged split: if_splits)

lemma no_engine_Full_stage:
  assumes "uid env \<noteq> 0" and "Full_stage env b i w = (r, w')"
  shows "no_engine w w'"
proof -
  let ?s = "stages b ! i"
  let ?rootfs = "RootfsPath (stage_b ?s)"
  let ?s' = "append_post env ?s"
  let ?b' = "b\<lparr>stages := (stages b)[i := ?s']\<rparr>"
  obtain e1 w1 where 1: "bcall env (RunPreScript ?rootfs) w = (e1, w1)"
    by (cases "bcall env (RunPreScript ?rootfs) w")
  obtain r2 w2 where 2: "Full_bootstrap env b i ?s w1 = (r2, w2)"
    by (cases "Full_bootstrap env b i ?s w1")
  obtain e3 w3 where 3: "bcall env (HandleBundle ?rootfs) w2 = (e3, w3)"
    by (cases "bcall env (HandleBundle ?rootfs) w2")
  obtain r4 w4 where 4: "Full_copy env ?b' ?s' w3 = (r4, w4)"
    by (cases "Full_copy env ?b' ?s' w3")
  obtain r5 w5 where 5: "Full_engine env ?s' w4 = (r5, w5)"
    by (cases "Full_engine env ?s' w4")
  obtain e6 w6 where 6: "bcall env (InsertScripts ?rootfs) w5 = (e6, w6)"
    by (cases "bcall env (InsertScripts ?rootfs) w5")
  have n1: "no_engine w w1" using no_engine_bcall [OF _ 1] by simp
  have n2: "no_engine w w2" using n1 no_engine_Full_bootstrap [OF 2] by (rule no_engine_trans)
  have n3: "no_engine w w3" using n2 no_engine_bcall [OF _ 3] by (rule no_engine_trans) simp
  have n4: "no_engine w w4" using n3 no_engine_Full_copy [OF 4] by (rule no_engine_trans)
  have n5: "no_engine w w5" using n4 no_engine_Full_engine [OF assms(1) 5] by (rule no_engine_trans)
  have n6: "no_engine w w6" using n5 no_engine_bcall [OF _ 6] by (rule no_engine_trans) simp
  have "w' \<in> {w1, w2, w3, w4, w5, w6}"
    using assms(2) 1 2 3 4 5 6
    by (auto simp: Full_stage_def Let_def split: option.splits res.splits)
  with n1 n2 n3 n4 n5 n6 show ?thesis by auto
qed

lemma no_engine_Full_loop:
  assumes "uid env \<noteq> 0"
  shows "Full_loop env b is w = (r, w') \<Longrightarrow> no_engine w w'"
proof (induction "is" arbitrary: b w)
  case Nil
  then show ?case by simp
next
  case (Cons i "is")
  obtain r1 w1 where st: "Full_stage env b i w = (r1, w1)" by (cases "Full_stage env b i w")
  note 1 = no_engine_Full_stage [OF assms st]
  show ?case
  proof (cases r1)
    case (Ok b1)
    with st Cons.prems have "Full_loop env b1 is w1 = (r, w')" by simp
    from 1 Cons.IH [OF this] show ?thesis by (rule no_engine_trans)
  next
    case (Err e)
    with st Cons.prems 1 show ?thesis by simp
  next
    case (Panic e)
    with st Cons.prems 1 show ?thesis by simp
  qed
qed

lemma no_engine_Full_finish: "Full_finish env b w = (r, w') \<Longrightarrow> no_engine w w'"
  unfolding Full_finish_def Let_def
  by (auto split: if_splits sum.splits option.splits prod.splits dest!: no_engine_bcall [rotated])

lemma no_engine_Full_body:
  assumes "uid env \<noteq> 0" and "Full_body env b w = (r, w')"
  shows "no_engine w w'"
proof -
  obtain r1 w1 where l: "Full_loop env b [0 ..< length (stages b)] w = (r1, w1)"
    by (cases "Full_loop env b [0 ..< length (stages b)] w")
  note 1 = no_engine_Full_loop [OF assms(1) l]
  show ?thesis
  proof (cases r1)
    case (Ok b1)
    with l assms(2) have "Full_finish env b1 w1 = (r, w')" by (simp add: Full_body_def)
    from 1 no_engine_Full_finish [OF this] show ?thesis by (rule no_engine_trans)
  next
    case (Err e)
    with l assms(2) 1 show ?thesis by (simp add: Full_body_def)
  next
    case (Panic e)
    with l assms(2) 1 show ?thesis by (simp add: Full_body_def)
  qed
qed

lemma no_engine_RemoveAll_dir: "RemoveAll_dir env p w = (r, w') \<Longrightarrow> no_engine w w'"
  using RemoveAll_dir_trace [of env p w] by (auto simp: no_engine_def)

lemma no_engine_cleanUp_loop: "no_engine w (cleanUp_loop env ss w)"
proof (induction ss arbitrary: w)
  case Nil
  show ?case by simp
next
  case (Cons s ss)
  obtain r w1 where br: "Bundle_Remove env (stage_b s) w = (r, w1)"
    by (cases "Bundle_Remove env (stage_b s) w")
  from Bundle_Remove_trace [of env "stage_b s" w] br
  have 1: "no_engine w w1" by (auto simp: no_engine_def)
  show ?case
  proof (cases r)
    case None
    with br 1 Cons.IH [of w1] show ?thesis by (auto intro: no_engine_trans)
  next
    case (Some e)
    have "no_engine w1 (blog (Errorf (''Could not remove bundle: '' @ e)) w1)"
      by (rule no_engine_blog) simp
    with br Some 1 Cons.IH [of "blog (Errorf (''Could not remove bundle: '' @ e)) w1"]
    show ?thesis by (auto intro: no_engine_trans)
  qed
qed

lemma no_engine_cleanUp: "no_engine w (cleanUp env b w)"
  by (simp add: cleanUp_def no_engine_cleanUp_loop no_engine_blog)

lemma no_engine_Full:
  assumes "uid env \<noteq> 0"
  shows "no_engine w (snd (Full env b w))"
proof -
  obtain r w1 where fb: "Full_body env b w = (r, w1)" by (cases "Full_body env b w")
  from no_engine_Full_body [OF assms fb] no_engine_cleanUp [of w1 env b]
  have "no_engine w (cleanUp env b w1)" by (rule no_engine_trans)
  with fb show ?thesis by (simp add: Full_def)
qed

lemma Fields_nbsp:
  "Fields (''from C'' @ [CHR 0xC2, CHR 0xA0] @ ''D'') = [''from'', ''C'', ''D'']"
  by (simp add: Fields_def spaceWidth_def space_runes_def)

lemma append_post_keeps:
  "stage_name (append_post env s) = stage_name s"
  "BuildFiles (Recipe (stage_b (append_post env s))) = BuildFiles (Recipe (stage_b s))"
  by (simp_all add: append_post_def)

lemma stage_names_update:
  assumes "i < length ss" and "stage_name s' = stage_name (ss ! i)"
  shows "stage_name ` set (ss[i := s']) = stage_name ` set ss"
proof -
  have "map stage_name (ss[i := s']) = (map stage_name ss)[i := stage_name (ss ! i)]"
    using assms(2) by (simp add: map_update)
  also have "\<dots> = map stage_name ss"
    using assms(1) by (metis list_update_id map_update)
  finally have "set (map stage_name (ss[i := s'])) = set (map stage_name ss)" by simp
  then show ?thesis by simp
qed

lemma copyFiles_unknown:
  assumes "BuildFiles (Recipe (stage_b s)) = pre @ f # post"
    and "Fields (Args f) = [x, n]" and "n \<notin> stage_name ` set (stages b)"
  shows "copyFiles env b s w =
         (case copyFiles_loop env b s pre w of
            (Ok u, w') \<Rightarrow> (Err (''stage '' @ n @ '' was not found''), w')
          | (r, w') \<Rightarrow> (r, w'))"
proof -
  obtain r w' where p: "copyFiles_loop env b s pre w = (r, w')"
    by (cases "copyFiles_loop env b s pre w")
  show ?thesis
    unfolding copyFiles_def assms(1) copyFiles_loop_append p
    using copyFiles_loop_unknown [OF assms(2,3), of env s post w']
    by (cases r) (simp_all del: copyFiles_loop.simps)
qed

lemma Full_copy_unknown:
  assumes "BuildFiles (Recipe (stage_b s)) = pre @ f # post"
    and "Fields (Args f) = [x, n]" and "n \<notin> stage_name ` set (stages b)"
    and "RunSection env (stage_b s) ''files''"
  shows "Full_copy env b s w =
           (case copyFiles_loop env b s pre w of
              (Ok u, w') \<Rightarrow>
                (Err (''unable to copy files a stage to container fs: stage '' @ n @ '' was not found''), w')
            | (Err e, w') \<Rightarrow> (Err (''unable to copy files a stage to container fs: '' @ e), w')
            | (Panic e, w') \<Rightarrow> (Panic e, w'))"
  unfolding Full_copy_def copyFiles_unknown [OF assms(1,2,3)] using assms(4)
  by (simp split: prod.splits res.splits)

lemma Full_copy_unknown_not_Ok:
  assumes "BuildFiles (Recipe (stage_b s)) = pre @ f # post"
    and "Fields (Args f) = [x, n]" and "n \<notin> stage_name ` set (stages b)"
    and "RunSection env (stage_b s) ''files''"
  shows "fst (Full_copy env b s w) \<noteq> Ok u"
  unfolding Full_copy_unknown [OF assms]
  by (simp split: prod.splits res.splits)

lemma Full_stage_Ok_copy:
  "Full_stage env b i w = (Ok b', w') \<Longrightarrow>
   \<exists>w3 w4. Full_copy env (b\<lparr>stages := (stages b)[i := append_post env (stages b ! i)]\<rparr>)
                (append_post env (stages b ! i)) w3 = (Ok (), w4)"
  unfolding Full_stage_def Let_def
  by (auto split: prod.splits option.splits res.splits)

lemma Full_stage_unknown:
  assumes "names_unknown_stage env b i n"
  shows "fst (Full_stage env b i w) \<noteq> Ok b'"
proof
  assume "fst (Full_stage env b i w) = Ok b'"
  then obtain w' where ok: "Full_stage env b i w = (Ok b', w')"
    by (cases "Full_stage env b i w") simp
  let ?s' = "append_post env (stages b ! i)"
  let ?b' = "b\<lparr>stages := (stages b)[i := ?s']\<rparr>"
  from Full_stage_Ok_copy [OF ok] obtain w3 w4 where c: "Full_copy env ?b' ?s' w3 = (Ok (), w4)"
    by blast
  from assms obtain f x where i: "i < length (stages b)"
    and f: "f \<in> set (BuildFiles (Recipe (stage_b (stages b ! i))))" "Fields (Args f) = [x, n]"
    and n: "n \<notin> stage_name ` set (stages b)"
    and r: "RunSection env (stage_b ?s') ''files''"
    by (auto simp: names_unknown_stage_def)
  from f(1) obtain pre post where "BuildFiles (Recipe (stage_b (stages b ! i))) = pre @ f # post"
    by (auto simp: in_set_conv_decomp)
  then have 1: "BuildFiles (Recipe (stage_b ?s')) = pre @ f # post"
    by (simp add: append_post_keeps)
  have 2: "n \<notin> stage_name ` set (stages ?b')"
    using n stage_names_update [OF i, of ?s'] by (simp add: append_post_keeps)
  from Full_copy_unknown_not_Ok [OF 1 f(2) 2 r, of w3 "()"] c show False by simp
qed

lemma names_unknown_stage_kept:
  assumes "names_unknown_stage env b i n" and "j \<noteq> i"
  shows "names_unknown_stage env (b\<lparr>stages := (stages b)[j := append_post env (stages b ! j)]\<rparr>) i n"
proof (cases "j < length (stages b)")
  case True
  from stage_names_update [OF True, of "append_post env (stages b ! j)"]
  have "stage_name ` set ((stages b)[j := append_post env (stages b ! j)]) = stage_name ` set (stages b)"
    by (simp add: append_post_keeps)
  with assms show ?thesis by (simp add: names_unknown_stage_def)
next
  case False
  then have "(stages b)[j := append_post env (stages b ! j)] = stages b"
    by (simp add: list_update_beyond)
  with assms show ?thesis by (simp add: names_unknown_stage_def)
qed

lemma Full_loop_unknown:
  assumes "i \<in> set is" and "names_unknown_stage env b i n"
  shows "fst (Full_loop env b is w) \<noteq> Ok b'"
  using assms
proof (induction "is" arbitrary: b w)
  case Nil
  then show ?case by simp
next
  case (Cons j "is")
  obtain r w1 where st: "Full_stage env b j w = (r, w1)" by (cases "Full_stage env b j w")
  show ?case
  proof (cases r)
    case (Ok b1)
    from Full_stage_Ok [OF st [unfolded Ok]]
    have b1: "b1 = b\<lparr>stages := (stages b)[j := append_post env (stages b ! j)]\<rparr>" by blast
    have "j \<noteq> i"
    proof
      assume "j = i"
      with Full_stage_unknown [OF Cons.prems(2), of w b1] st Ok show False by simp
    qed
    with Cons.prems(1) have "i \<in> set is" by auto
    moreover from names_unknown_stage_kept [OF Cons.prems(2) \<open>j \<noteq> i\<close>]
    have "names_unknown_stage env b1 i n" unfolding b1 .
    ultimately have "fst (Full_loop env b1 is w1) \<noteq> Ok b'" by (rule Cons.IH)
    with st Ok show ?thesis by simp
  next
    case (Err e)
    with st show ?thesis by simp
  next
    case (Panic e)
    with st show ?thesis by simp
  qed
qed

lemma Full_unknown:
  assumes "names_unknown_stage env b i n"
  shows "\<not> succeeded (fst (Full env b w))"
proof -
  from assms have "i \<in> set [0 ..< length (stages b)]" by (simp add: names_unknown_stage_def)
  from Full_loop_unknown [OF this assms]
  have l: "\<And>b1. fst (Full_loop env b [0 ..< length (stages b)] w) \<noteq> Ok b1" .
  obtain r w1 where r: "Full_loop env b [0 ..< length (stages b)] w = (r, w1)"
    by (cases "Full_loop env b [0 ..< length (stages b)] w")
  have "\<not> succeeded (fst (Full_body env b w))"
  proof (cases r)
    case (Ok b1)
    with l [of b1] r show ?thesis by simp
  qed (simp_all add: Full_body_def r)
  then show ?thesis by (cases "Full_body env b w") (simp add: Full_def)
qed

lemma Full_loop_append:
  "Full_loop env b (xs @ ys) w =
     (case Full_loop env b xs w of
        (Ok b1, w1) \<Rightarrow> Full_loop env b1 ys w1
      | (r, w1) \<Rightarrow> (r, w1))"
  by (induction xs arbitrary: b w) (auto split: prod.splits res.splits)

lemma Full_loop_Ok:
  "Full_loop env b is w = (Ok b1, w1) \<Longrightarrow>
   length (stages b1) = length (stages b)
   \<and> (\<forall>k. k \<notin> set is \<longrightarrow> stages b1 ! k = stages b ! k)
   \<and> stage_name ` set (stages b1) = stage_name ` set (stages b)"
proof (induction "is" arbitrary: b w)
  case Nil
  then show ?case by simp
next
  case (Cons j "is")
  obtain r w0 where st: "Full_stage env b j w = (r, w0)" by (cases "Full_stage env b j w")
  with Cons.prems obtain b0 where r: "r = Ok b0" and l: "Full_loop env b0 is w0 = (Ok b1, w1)"
    by (cases r) auto
  from Full_stage_Ok [OF st [unfolded r]]
  have b0: "b0 = b\<lparr>stages := (stages b)[j := append_post env (stages b ! j)]\<rparr>" by blast
  have n: "stage_name ` set (stages b0) = stage_name ` set (stages b)"
  proof (cases "j < length (stages b)")
    case True
    from stage_names_update [OF True, of "append_post env (stages b ! j)"] show ?thesis
      unfolding b0 by (simp add: append_post_keeps)
  next
    case False
    then show ?thesis unfolding b0 by (simp add: list_update_beyond)
  qed
  from Cons.IH [OF l] n show ?case unfolding b0 by auto
qed

lemma Full_stage_reaches_unknown:
  assumes i: "i < length (stages b)"
    and f: "BuildFiles (Recipe (stage_b (stages b ! i))) = pre @ f # post"
      "Fields (Args f) = [x, n]" "n \<notin> stage_name ` set (stages b)"
    and r: "RunSection env (stage_b (append_post env (stages b ! i))) ''files''"
    and 1: "bcall env (RunPreScript (RootfsPath (stage_b (stages b ! i)))) w = (None, w1)"
    and 2: "Full_bootstrap env b i (stages b ! i) w1 = (Ok (), w2)"
    and 3: "bcall env (HandleBundle (RootfsPath (stage_b (stages b ! i)))) w2 = (None, w3)"
    and 4: "copyFiles_loop env (b\<lparr>stages := (stages b)[i := append_post env (stages b ! i)]\<rparr>)
              (append_post env (stages b ! i)) pre w3 = (Ok (), w4)"
  shows "Full_stage env b i w =
     (Err (''unable to copy files a stage to container fs: stage '' @ n @ '' was not found''), w4)"
proof -
  let ?s' = "append_post env (stages b ! i)"
  let ?b' = "b\<lparr>stages := (stages b)[i := ?s']\<rparr>"
  have a: "BuildFiles (Recipe (stage_b ?s')) = pre @ f # post"
    using f(1) by (simp add: append_post_keeps)
  have b: "n \<notin> stage_name ` set (stages ?b')"
    using f(3) stage_names_update [OF i, of ?s'] by (simp add: append_post_keeps)
  from Full_copy_unknown [OF a f(2) b r, of w3] 4
  have "Full_copy env ?b' ?s' w3 =
     (Err (''unable to copy files a stage to container fs: stage '' @ n @ '' was not found''), w4)"
    by simp
  with 1 2 3 show ?thesis by (simp add: Full_stage_def Let_def)
qed

lemma Full_reaches_unknown:
  assumes i: "i < length (stages b)"
    and f: "BuildFiles (Recipe (stage_b (stages b ! i))) = pre @ f # post"
      "Fields (Args f) = [x, n]" "n \<notin> stage_name ` set (stages b)"
    and l: "Full_loop env b [0 ..< i] w = (Ok bi, wi)"
    and r: "RunSection env (stage_b (append_post env (stages bi ! i))) ''files''"
    and 1: "bcall env (RunPreScript (RootfsPath (stage_b (stages bi ! i)))) wi = (None, w1)"
    and 2: "Full_bootstrap env bi i (stages bi ! i) w1 = (Ok (), w2)"
    and 3: "bcall env (HandleBundle (RootfsPath (stage_b (stages bi ! i)))) w2 = (None, w3)"
    and 4: "copyFiles_loop env (bi\<lparr>stages := (stages bi)[i := append_post env (stages bi ! i)]\<rparr>)
              (append_post env (stages bi ! i)) pre w3 = (Ok (), w4)"
  shows "Full env b w =
     (Err (''unable to copy files a stage to container fs: stage '' @ n @ '' was not found''),
      cleanUp env b w4)"
proof -
  from Full_loop_Ok [OF l]
  have len: "length (stages bi) = length (stages b)"
    and same: "stages bi ! i = stages b ! i"
    and names: "stage_name ` set (stages bi) = stage_name ` set (stages b)"
    by auto
  have st: "Full_stage env bi i wi =
     (Err (''unable to copy files a stage to container fs: stage '' @ n @ '' was not found''), w4)"
    by (rule Full_stage_reaches_unknown [of i bi pre f "post" x n env wi w1 w2 w3 w4])
       (use i f r 1 2 3 4 len same names in simp_all)
  have "[0 ..< length (stages b)] = [0 ..< i] @ i # [Suc i ..< length (stages b)]"
  proof -
    have "[0 ..< length (stages b)] = [0 ..< i] @ [i ..< length (stages b)]"
      using i upt_add_eq_append [of 0 i "length (stages b) - i"] by simp
    also have "[i ..< length (stages b)] = i # [Suc i ..< length (stages b)]"
      using i by (rule upt_conv_Cons)
    finally show ?thesis .
  qed
  then have "Full_loop env b [0 ..< length (stages b)] w =
     (Err (''unable to copy files a stage to container fs: stage '' @ n @ '' was not found''), w4)"
    by (simp add: Full_loop_append l st)
  then show ?thesis by (simp add: Full_def Full_body_def)
qed

lemma two_stage_loop_A:
  "Full_loop example_env two_stage_build [0 ..< 1] two_stage_world =
     (Ok two_stage_build,
      \<lparr>trace = [RunPreScript ''/out/ra'', ConveyorGet ScratchConveyorPacker ''/out/ra'',
                ConveyorPack ScratchConveyorPacker ''/out/ra'', HandleBundle ''/out/ra'',
                InsertScripts ''/out/ra''],
       dirs = {''/out/ra'', ''/ta'', ''/out/rb'', ''/tb''}, removed = []\<rparr>)"
  by (simp add: Full_stage_def Full_bootstrap_cases Full_copy_def copyFiles_def
        Full_engine_def engineRequired_def append_post_def
        bcall_def Let_def example_env_def example_conf_def zero_Options_def cache_Options_def
        scratch_def_def zero_Definition_def upt_rec two_stage_build_def two_stage_world_def)

text \<open>
  Claim C4, as the code has it. The stage a directive names is looked up by a linear search
  over all stages of the build: the result is the first index whose stage has that name,
  and the error "stage ... was not found" exactly when no stage has it. Let the directives
  of a stage contain one whose arguments are two words, the second naming no stage. Then
  \<^verbatim>\<open>copyFiles\<close> processes the directives before it and fails with that error, unless one of
  those failed first: the world it leaves is the one the earlier directives leave, so no
  file of the directive (or of a later one) has been copied. The copy step is taken only
  when the section "files" of the bundle is run; if it is, \<^verbatim>\<open>Full\<close> does not succeed, and
  when the earlier stages and the earlier steps and directives of the stage succeed,
  \<^verbatim>\<open>Full\<close> returns "unable to copy files a stage to container fs: stage ... was not found"
  after the cleanup of the world the directives before it left.
\<close>

theorem copyFiles_unknown_stage:
  assumes "BuildFiles (Recipe (stage_b s)) = pre @ f # post"
    and "Fields (Args f) = [x, n]"
    and "n \<notin> stage_name ` set (stages b)"
  shows "findStageIndex b n = Inl (''stage '' @ n @ '' was not found'')
    \<and> (findStageIndex b m = Inr k \<longleftrightarrow>
          k < length (stages b) \<and> stage_name (stages b ! k) = m
          \<and> (\<forall>j < k. stage_name (stages b ! j) \<noteq> m))
    \<and> copyFiles env b s w =
         (case copyFiles_loop env b s pre w of
            (Ok u, w') \<Rightarrow> (Err (''stage '' @ n @ '' was not found''), w')
          | (r, w') \<Rightarrow> (r, w'))
    \<and> (RunSection env (stage_b s) ''files'' \<longrightarrow>
         Full_copy env b s w =
           (case copyFiles_loop env b s pre w of
              (Ok u, w') \<Rightarrow>
                (Err (''unable to copy files a stage to container fs: stage '' @ n @ '' was not found''), w')
            | (Err e, w') \<Rightarrow> (Err (''unable to copy files a stage to container fs: '' @ e), w')
            | (Panic e, w') \<Rightarrow> (Panic e, w')))
    \<and> (i < length (stages b) \<and> stages b ! i = s
         \<and> RunSection env (stage_b (append_post env s)) ''files'' \<longrightarrow>
       \<not> succeeded (fst (Full env b w)))
    \<and> (i < length (stages b) \<and> stages b ! i = s
         \<and> Full_loop env b [0 ..< i] w = (Ok bi, wi)
         \<and> RunSection env (stage_b (append_post env (stages bi ! i))) ''files''
         \<and> bcall env (RunPreScript (RootfsPath (stage_b (stages bi ! i)))) wi = (None, w1)
         \<and> Full_bootstrap env bi i (stages bi ! i) w1 = (Ok (), w2)
         \<and> bcall env (HandleBundle (RootfsPath (stage_b (stages bi ! i)))) w2 = (None, w3)
         \<and> copyFiles_loop env (bi\<lparr>stages := (stages bi)[i := append_post env (stages bi ! i)]\<rparr>)
              (append_post env (stages bi ! i)) pre w3 = (Ok (), w4) \<longrightarrow>
       Full env b w =
         (Err (''unable to copy files a stage to container fs: stage '' @ n @ '' was not found''),
          cleanUp env b w4))"
proof -
  have 1: "findStageIndex b n = Inl (''stage '' @ n @ '' was not found'')"
    using assms(3) findStageIndex_linear by blast
  have 2: "findStageIndex b m = Inr k \<longleftrightarrow>
          k < length (stages b) \<and> stage_name (stages b ! k) = m
          \<and> (\<forall>j < k. stage_name (stages b ! j) \<noteq> m)"
    using findStageIndex_linear by blast
  note 3 = copyFiles_unknown [OF assms, of env w]
  note 4 = Full_copy_unknown [OF assms, of env w]
  have 5: "\<not> succeeded (fst (Full env b w))"
    if h: "i < length (stages b) \<and> stages b ! i = s
         \<and> RunSection env (stage_b (append_post env s)) ''files''"
  proof -
    have "f \<in> set (BuildFiles (Recipe (stage_b (stages b ! i))))"
      using h assms(1) by simp
    with h assms(2,3) have "names_unknown_stage env b i n"
      unfolding names_unknown_stage_def by blast
    then show ?thesis by (rule Full_unknown)
  qed
  have 6: "Full env b w =
         (Err (''unable to copy files a stage to container fs: stage '' @ n @ '' was not found''),
          cleanUp env b w4)"
    if h: "i < length (stages b) \<and> stages b ! i = s
         \<and> Full_loop env b [0 ..< i] w = (Ok bi, wi)
         \<and> RunSection env (stage_b (append_post env (stages bi ! i))) ''files''
         \<and> bcall env (RunPreScript (RootfsPath (stage_b (stages bi ! i)))) wi = (None, w1)
         \<and> Full_bootstrap env bi i (stages bi ! i) w1 = (Ok (), w2)
         \<and> bcall env (HandleBundle (RootfsPath (stage_b (stages bi ! i)))) w2 = (None, w3)
         \<and> copyFiles_loop env (bi\<lparr>stages := (stages bi)[i := append_post env (stages bi ! i)]\<rparr>)
              (append_post env (stages bi ! i)) pre w3 = (Ok (), w4)"
    by (rule Full_reaches_unknown [of i b pre f "post" x n env w bi wi w1 w2 w3 w4])
       (use h assms in simp_all)
  from 1 2 3 4 5 6 show ?thesis by blast
qed

theorem copyFiles_unknown_stage_witness:
  "Full example_env two_stage_build two_stage_world =
     (Err ''unable to copy files a stage to container fs: stage C was not found'',
      \<lparr>trace = [RunPreScript ''/out/ra'', ConveyorGet ScratchConveyorPacker ''/out/ra'',
                ConveyorPack ScratchConveyorPacker ''/out/ra'', HandleBundle ''/out/ra'',
                InsertScripts ''/out/ra'',
                RunPreScript ''/out/rb'', ConveyorGet ScratchConveyorPacker ''/out/rb'',
                ConveyorPack ScratchConveyorPacker ''/out/rb'', HandleBundle ''/out/rb'',
                RemoveAll ''/out/ra'', RemoveAll ''/ta'', RemoveAll ''/out/rb'', RemoveAll ''/tb''],
       dirs = {}, removed = [''/out/ra'', ''/ta'', ''/out/rb'', ''/tb'']\<rparr>)"
proof -
  let ?s = "stages two_stage_build ! 1"
  let ?wi = "\<lparr>trace = [RunPreScript ''/out/ra'', ConveyorGet ScratchConveyorPacker ''/out/ra'',
                ConveyorPack ScratchConveyorPacker ''/out/ra'', HandleBundle ''/out/ra'',
                InsertScripts ''/out/ra''],
       dirs = {''/out/ra'', ''/ta'', ''/out/rb'', ''/tb''}, removed = []\<rparr>"
  let ?w1 = "\<lparr>trace = [RunPreScript ''/out/ra'', ConveyorGet ScratchConveyorPacker ''/out/ra'',
                ConveyorPack ScratchConveyorPacker ''/out/ra'', HandleBundle ''/out/ra'',
                InsertScripts ''/out/ra'', RunPreScript ''/out/rb''],
       dirs = {''/out/ra'', ''/ta'', ''/out/rb'', ''/tb''}, removed = []\<rparr>"
  let ?w2 = "\<lparr>trace = [RunPreScript ''/out/ra'', ConveyorGet ScratchConveyorPacker ''/out/ra'',
                ConveyorPack ScratchConveyorPacker ''/out/ra'', HandleBundle ''/out/ra'',
                InsertScripts ''/out/ra'', RunPreScript ''/out/rb'',
                ConveyorGet ScratchConveyorPacker ''/out/rb'',
                ConveyorPack ScratchConveyorPacker ''/out/rb''],
       dirs = {''/out/ra'', ''/ta'', ''/out/rb'', ''/tb''}, removed = []\<rparr>"
  let ?w3 = "\<lparr>trace = [RunPreScript ''/out/ra'', ConveyorGet ScratchConveyorPacker ''/out/ra'',
                ConveyorPack ScratchConveyorPacker ''/out/ra'', HandleBundle ''/out/ra'',
                InsertScripts ''/out/ra'',
                RunPreScript ''/out/rb'', ConveyorGet ScratchConveyorPacker ''/out/rb'',
                ConveyorPack ScratchConveyorPacker ''/out/rb'', HandleBundle ''/out/rb''],
       dirs = {''/out/ra'', ''/ta'', ''/out/rb'', ''/tb''}, removed = []\<rparr>"
  have a1: "BuildFiles (Recipe (stage_b ?s)) = [] @ from_C # []"
    by (simp add: two_stage_build_def)
  have a2: "Fields (Args from_C) = [''from'', ''C'']"
    by (simp add: from_C_def Fields_def spaceWidth_def space_runes_def)
  have a3: "''C'' \<notin> stage_name ` set (stages two_stage_build)"
    by (simp add: two_stage_build_def)
  have s: "stages two_stage_build ! 1 =
      \<lparr>stage_name = ''B'',
         stage_b = \<lparr>RootfsPath = ''/out/rb'', BundleTmpDir = ''/tb'',
                    Recipe = scratch_def\<lparr>BuildFiles := [from_C]\<rparr>,
                    BundleOpts = cache_Options, JSONLabels = None\<rparr>,
         stage_c = Some ScratchConveyorPacker, stage_a = Some SandboxAssembler\<rparr>"
    by (simp add: two_stage_build_def)
  have h: "1 < length (stages two_stage_build) \<and> stages two_stage_build ! 1 = ?s
         \<and> Full_loop example_env two_stage_build [0 ..< 1] two_stage_world = (Ok two_stage_build, ?wi)
         \<and> RunSection example_env (stage_b (append_post example_env (stages two_stage_build ! 1))) ''files''
         \<and> bcall example_env (RunPreScript (RootfsPath (stage_b (stages two_stage_build ! 1)))) ?wi
             = (None, ?w1)
         \<and> Full_bootstrap example_env two_stage_build 1 (stages two_stage_build ! 1) ?w1 = (Ok (), ?w2)
         \<and> bcall example_env (HandleBundle (RootfsPath (stage_b (stages two_stage_build ! 1)))) ?w2
             = (None, ?w3)
         \<and> copyFiles_loop example_env
              (two_stage_build\<lparr>stages := (stages two_stage_build)
                  [1 := append_post example_env (stages two_stage_build ! 1)]\<rparr>)
              (append_post example_env (stages two_stage_build ! 1)) [] ?w3 = (Ok (), ?w3)"
    unfolding s using two_stage_loop_A
    by (simp add: Full_bootstrap_cases bcall_def example_env_def cache_Options_def zero_Options_def
          two_stage_build_def example_conf_def)
  have c: "cleanUp example_env two_stage_build ?w3 =
      \<lparr>trace = [RunPreScript ''/out/ra'', ConveyorGet ScratchConveyorPacker ''/out/ra'',
                ConveyorPack ScratchConveyorPacker ''/out/ra'', HandleBundle ''/out/ra'',
                InsertScripts ''/out/ra'',
                RunPreScript ''/out/rb'', ConveyorGet ScratchConveyorPacker ''/out/rb'',
                ConveyorPack ScratchConveyorPacker ''/out/rb'', HandleBundle ''/out/rb'',
                RemoveAll ''/out/ra'', RemoveAll ''/ta'', RemoveAll ''/out/rb'', RemoveAll ''/tb''],
       dirs = {}, removed = [''/out/ra'', ''/ta'', ''/out/rb'', ''/tb'']\<rparr>"
    by (simp add: cleanUp_def Bundle_Remove_def RemoveAll_dir_def bcall_def blog_def
          example_env_def two_stage_build_def example_conf_def)
  from copyFiles_unknown_stage [OF a1 a2 a3, where i = 1
      and env = example_env and w = two_stage_world and bi = two_stage_build and wi = ?wi
      and ?w1.0 = ?w1 and ?w2.0 = ?w2 and ?w3.0 = ?w3 and ?w4.0 = ?w3] h
  have "Full example_env two_stage_build two_stage_world =
     (Err (''unable to copy files a stage to container fs: stage '' @ ''C'' @ '' was not found''),
      cleanUp example_env two_stage_build ?w3)"
    by blast
  then show ?thesis unfolding c by simp
qed

theorem Full_files_section_off_counterexample:
  "Fields (Args from_C) = [''from'', ''C'']
   \<and> findStageIndex two_stage_build ''C'' = Inl ''stage C was not found''
   \<and> succeeded (fst (Full (example_env\<lparr>RunSection := \<lambda>bd n. False\<rparr>) two_stage_build two_stage_world))
   \<and> trace (snd (Full (example_env\<lparr>RunSection := \<lambda>bd n. False\<rparr>) two_stage_build two_stage_world)) =
       [RunPreScript ''/out/ra'', ConveyorGet ScratchConveyorPacker ''/out/ra'',
                ConveyorPack ScratchConveyorPacker ''/out/ra'', HandleBundle ''/out/ra'',
                InsertScripts ''/out/ra'',
        RunPreScript ''/out/rb'', ConveyorGet ScratchConveyorPacker ''/out/rb'',
                ConveyorPack ScratchConveyorPacker ''/out/rb'', HandleBundle ''/out/rb'',
        JsonMarshal ''/out/rb'', PipeCommand ''/out/rb'', StarterRun ''/out/rb'',
        InsertScripts ''/out/rb'', Assemble SandboxAssembler ''/out/rb'' ''/out/c'',
        RemoveAll ''/out/ra'', RemoveAll ''/ta'', RemoveAll ''/out/rb'', RemoveAll ''/tb'']"
proof (intro conjI)
  show "Fields (Args from_C) = [''from'', ''C'']"
    by (simp add: from_C_def Fields_def spaceWidth_def space_runes_def)
  show "findStageIndex two_stage_build ''C'' = Inl ''stage C was not found''"
    by (simp add: findStageIndex_def two_stage_build_def)
  have body: "succeeded (fst (Full_body (example_env\<lparr>RunSection := \<lambda>bd n. False\<rparr>) two_stage_build two_stage_world))
    \<and> snd (Full_body (example_env\<lparr>RunSection := \<lambda>bd n. False\<rparr>) two_stage_build two_stage_world) =
      \<lparr>trace = [RunPreScript ''/out/ra'', ConveyorGet ScratchConveyorPacker ''/out/ra'',
                ConveyorPack ScratchConveyorPacker ''/out/ra'', HandleBundle ''/out/ra'',
                InsertScripts ''/out/ra'',
        RunPreScript ''/out/rb'', ConveyorGet ScratchConveyorPacker ''/out/rb'',
                ConveyorPack ScratchConveyorPacker ''/out/rb'', HandleBundle ''/out/rb'',
        JsonMarshal ''/out/rb'', PipeCommand ''/out/rb'', StarterRun ''/out/rb'',
        InsertScripts ''/out/rb'', Assemble SandboxAssembler ''/out/rb'' ''/out/c''],
       dirs = {''/out/ra'', ''/ta'', ''/out/rb'', ''/tb''}, removed = []\<rparr>"
    by (simp add: Full_body_def Full_stage_def Full_bootstrap_cases Full_copy_def
        Full_engine_def runBuildEngine_def engineRequired_def append_post_def Full_finish_def
        bcall_def Let_def example_env_def example_conf_def zero_Options_def cache_Options_def
        scratch_def_def zero_Definition_def upt_rec two_stage_build_def two_stage_world_def
        from_C_def)
  then show "succeeded (fst (Full (example_env\<lparr>RunSection := \<lambda>bd n. False\<rparr>) two_stage_build two_stage_world))"
    by (cases "Full_body (example_env\<lparr>RunSection := \<lambda>bd n. False\<rparr>) two_stage_build two_stage_world") (simp add: Full_def)
  from body show "trace (snd (Full (example_env\<lparr>RunSection := \<lambda>bd n. False\<rparr>) two_stage_build two_stage_world)) =
       [RunPreScript ''/out/ra'', ConveyorGet ScratchConveyorPacker ''/out/ra'',
                ConveyorPack ScratchConveyorPacker ''/out/ra'', HandleBundle ''/out/ra'',
                InsertScripts ''/out/ra'',
        RunPreScript ''/out/rb'', ConveyorGet ScratchConveyorPacker ''/out/rb'',
                ConveyorPack ScratchConveyorPacker ''/out/rb'', HandleBundle ''/out/rb'',
        JsonMarshal ''/out/rb'', PipeCommand ''/out/rb'', StarterRun ''/out/rb'',
        InsertScripts ''/out/rb'', Assemble SandboxAssembler ''/out/rb'' ''/out/c'',
        RemoveAll ''/out/ra'', RemoveAll ''/ta'', RemoveAll ''/out/rb'', RemoveAll ''/tb'']"
    by (cases "Full_body (example_env\<lparr>RunSection := \<lambda>bd n. False\<rparr>) two_stage_build two_stage_world")
       (simp add: Full_def cleanUp_def Bundle_Remove_def RemoveAll_dir_def bcall_def blog_def
          example_env_def two_stage_build_def example_conf_def)
qed

text \<open>
  Claim C3, at the input where the code departs from it. \<^verbatim>\<open>Full\<close> chooses as the claim
  says (\<open>Full_bootstrap_cases\<close>): extraction exactly when update is set, force is not and
  the stage is the last one; otherwise "undefined image cache" for a nil cache, else fetch
  and pack of the stage's conveyor. But \<^verbatim>\<open>newBuild\<close> gives no stage a conveyor when update
  is set and force is not, whatever its index. For two definitions built with the update
  option, the first stage therefore takes the fetch branch with a nil conveyor: the call
  panics, neither fetch nor pack runs, and only the deferred cleanup follows.
\<close>

theorem Full_update_multistage_panics:
  "newBuild example_env [scratch_def, scratch_def] (example_conf\<lparr>Opts := zero_Options\<lparr>Update := True, ImgCache := Some ''/cache''\<rparr>\<rparr>) empty_world =
     (Ok \<lparr>stages = [(example_stage [] ''/out/rootfs-id'' ''/bundle-temp-'' scratch_def
                     (zero_Options\<lparr>Update := True, ImgCache := Some ''/cache''\<rparr>))\<lparr>stage_c := None\<rparr>,
                  (example_stage [] ''/out/rootfs-idx'' ''/bundle-temp-x'' scratch_def
                     (zero_Options\<lparr>Update := True, ImgCache := Some ''/cache''\<rparr>))
                    \<lparr>stage_c := None, stage_a := Some SandboxAssembler\<rparr>],
        Conf = (example_conf\<lparr>Opts := zero_Options\<lparr>Update := True, ImgCache := Some ''/cache''\<rparr>\<rparr>)\<rparr>,
      \<lparr>trace = [NewBundle ''/out/rootfs-id'' [], NewBundle ''/out/rootfs-idx'' []],
        dirs = {''/out/rootfs-id'', ''/bundle-temp-'', ''/out/rootfs-idx'', ''/bundle-temp-x''},
        removed = []\<rparr>)
   \<and> fst (Full example_env \<lparr>stages = [(example_stage [] ''/out/rootfs-id'' ''/bundle-temp-'' scratch_def
                     (zero_Options\<lparr>Update := True, ImgCache := Some ''/cache''\<rparr>))\<lparr>stage_c := None\<rparr>,
                  (example_stage [] ''/out/rootfs-idx'' ''/bundle-temp-x'' scratch_def
                     (zero_Options\<lparr>Update := True, ImgCache := Some ''/cache''\<rparr>))
                    \<lparr>stage_c := None, stage_a := Some SandboxAssembler\<rparr>],
        Conf = (example_conf\<lparr>Opts := zero_Options\<lparr>Update := True, ImgCache := Some ''/cache''\<rparr>\<rparr>)\<rparr>
      \<lparr>trace = [NewBundle ''/out/rootfs-id'' [], NewBundle ''/out/rootfs-idx'' []],
        dirs = {''/out/rootfs-id'', ''/bundle-temp-'', ''/out/rootfs-idx'', ''/bundle-temp-x''},
        removed = []\<rparr>)
     = Panic ''invalid memory address or nil pointer dereference''
   \<and> trace (snd (Full example_env \<lparr>stages = [(example_stage [] ''/out/rootfs-id'' ''/bundle-temp-'' scratch_def
                     (zero_Options\<lparr>Update := True, ImgCache := Some ''/cache''\<rparr>))\<lparr>stage_c := None\<rparr>,
                  (example_stage [] ''/out/rootfs-idx'' ''/bundle-temp-x'' scratch_def
                     (zero_Options\<lparr>Update := True, ImgCache := Some ''/cache''\<rparr>))
                    \<lparr>stage_c := None, stage_a := Some SandboxAssembler\<rparr>],
        Conf = (example_conf\<lparr>Opts := zero_Options\<lparr>Update := True, ImgCache := Some ''/cache''\<rparr>\<rparr>)\<rparr>
      \<lparr>trace = [NewBundle ''/out/rootfs-id'' [], NewBundle ''/out/rootfs-idx'' []],
        dirs = {''/out/rootfs-id'', ''/bundle-temp-'', ''/out/rootfs-idx'', ''/bundle-temp-x''},
        removed = []\<rparr>))
     = [NewBundle ''/out/rootfs-id'' [], NewBundle ''/out/rootfs-idx'' [],
        RunPreScript ''/out/rootfs-id'', RemoveAll ''/out/rootfs-id'', RemoveAll ''/bundle-temp-'',
        RemoveAll ''/out/rootfs-idx'', RemoveAll ''/bundle-temp-x'']"
proof (intro conjI)
  show "newBuild example_env [scratch_def, scratch_def] (example_conf\<lparr>Opts := zero_Options\<lparr>Update := True, ImgCache := Some ''/cache''\<rparr>\<rparr>) empty_world =
     (Ok \<lparr>stages = [(example_stage [] ''/out/rootfs-id'' ''/bundle-temp-'' scratch_def
                     (zero_Options\<lparr>Update := True, ImgCache := Some ''/cache''\<rparr>))\<lparr>stage_c := None\<rparr>,
                  (example_stage [] ''/out/rootfs-idx'' ''/bundle-temp-x'' scratch_def
                     (zero_Options\<lparr>Update := True, ImgCache := Some ''/cache''\<rparr>))
                    \<lparr>stage_c := None, stage_a := Some SandboxAssembler\<rparr>],
        Conf = (example_conf\<lparr>Opts := zero_Options\<lparr>Update := True, ImgCache := Some ''/cache''\<rparr>\<rparr>)\<rparr>,
      \<lparr>trace = [NewBundle ''/out/rootfs-id'' [], NewBundle ''/out/rootfs-idx'' []],
        dirs = {''/out/rootfs-id'', ''/bundle-temp-'', ''/out/rootfs-idx'', ''/bundle-temp-x''},
        removed = []\<rparr>)"
    by (auto simp: newBuild_def newBuild_conf_def zero_Options_def example_env_def example_conf_def
      empty_world_def example_stage_def scratch_def_def bcall_def mapget_def
      zero_Definition_def set_assembler_def finish_build_def Let_def)
  have body: "Full_body example_env \<lparr>stages = [(example_stage [] ''/out/rootfs-id'' ''/bundle-temp-'' scratch_def
                     (zero_Options\<lparr>Update := True, ImgCache := Some ''/cache''\<rparr>))\<lparr>stage_c := None\<rparr>,
                  (example_stage [] ''/out/rootfs-idx'' ''/bundle-temp-x'' scratch_def
                     (zero_Options\<lparr>Update := True, ImgCache := Some ''/cache''\<rparr>))
                    \<lparr>stage_c := None, stage_a := Some SandboxAssembler\<rparr>],
        Conf = (example_conf\<lparr>Opts := zero_Options\<lparr>Update := True, ImgCache := Some ''/cache''\<rparr>\<rparr>)\<rparr>
      \<lparr>trace = [NewBundle ''/out/rootfs-id'' [], NewBundle ''/out/rootfs-idx'' []],
        dirs = {''/out/rootfs-id'', ''/bundle-temp-'', ''/out/rootfs-idx'', ''/bundle-temp-x''},
        removed = []\<rparr> =
     (Panic ''invalid memory address or nil pointer dereference'',
      \<lparr>trace = [NewBundle ''/out/rootfs-id'' [], NewBundle ''/out/rootfs-idx'' [],
                RunPreScript ''/out/rootfs-id''],
       dirs = {''/out/rootfs-id'', ''/bundle-temp-'', ''/out/rootfs-idx'', ''/bundle-temp-x''},
       removed = []\<rparr>)"
    by (simp add: Full_body_def Full_stage_def Full_bootstrap_cases bcall_def Let_def
          example_env_def example_stage_def example_conf_def zero_Options_def upt_rec)
  show "fst (Full example_env \<lparr>stages = [(example_stage [] ''/out/rootfs-id'' ''/bundle-temp-'' scratch_def
                     (zero_Options\<lparr>Update := True, ImgCache := Some ''/cache''\<rparr>))\<lparr>stage_c := None\<rparr>,
                  (example_stage [] ''/out/rootfs-idx'' ''/bundle-temp-x'' scratch_def
                     (zero_Options\<lparr>Update := True, ImgCache := Some ''/cache''\<rparr>))
                    \<lparr>stage_c := None, stage_a := Some SandboxAssembler\<rparr>],
        Conf = (example_conf\<lparr>Opts := zero_Options\<lparr>Update := True, ImgCache := Some ''/cache''\<rparr>\<rparr>)\<rparr>
      \<lparr>trace = [NewBundle ''/out/rootfs-id'' [], NewBundle ''/out/rootfs-idx'' []],
        dirs = {''/out/rootfs-id'', ''/bundle-temp-'', ''/out/rootfs-idx'', ''/bundle-temp-x''},
        removed = []\<rparr>)
     = Panic ''invalid memory address or nil pointer dereference''"
    by (simp add: Full_def body)
  show "trace (snd (Full example_env \<lparr>stages = [(example_stage [] ''/out/rootfs-id'' ''/bundle-temp-'' scratch_def
                     (zero_Options\<lparr>Update := True, ImgCache := Some ''/cache''\<rparr>))\<lparr>stage_c := None\<rparr>,
                  (example_stage [] ''/out/rootfs-idx'' ''/bundle-temp-x'' scratch_def
                     (zero_Options\<lparr>Update := True, ImgCache := Some ''/cache''\<rparr>))
                    \<lparr>stage_c := None, stage_a := Some SandboxAssembler\<rparr>],
        Conf = (example_conf\<lparr>Opts := zero_Options\<lparr>Update := True, ImgCache := Some ''/cache''\<rparr>\<rparr>)\<rparr>
      \<lparr>trace = [NewBundle ''/out/rootfs-id'' [], NewBundle ''/out/rootfs-idx'' []],
        dirs = {''/out/rootfs-id'', ''/bundle-temp-'', ''/out/rootfs-idx'', ''/bundle-temp-x''},
        removed = []\<rparr>))
     = [NewBundle ''/out/rootfs-id'' [], NewBundle ''/out/rootfs-idx'' [],
        RunPreScript ''/out/rootfs-id'', RemoveAll ''/out/rootfs-id'', RemoveAll ''/bundle-temp-'',
        RemoveAll ''/out/rootfs-idx'', RemoveAll ''/bundle-temp-x'']"
    unfolding Full_def body
    by (simp add: cleanUp_def Bundle_Remove_def RemoveAll_dir_def bcall_def blog_def
          example_env_def example_stage_def example_conf_def)
qed

lemma Full_post_unprivileged_example:
  "Full_body (example_env\<lparr>uid := 1000\<rparr>)
      \<lparr>stages = [((example_stage [] ''/out/rootfs-id'' ''/bundle-temp-'' (scratch_def\<lparr>Post := ''echo hi''\<rparr>) (zero_Options\<lparr>ImgCache := Some ''/cache''\<rparr>))\<lparr>stage_a := Some SandboxAssembler\<rparr>)],
        Conf = example_conf\<lparr>Opts := (zero_Options\<lparr>ImgCache := Some ''/cache''\<rparr>)\<rparr>\<rparr>
      \<lparr>trace = [NewBundle ''/out/rootfs-id'' []], dirs = {''/out/rootfs-id'', ''/bundle-temp-''}, removed = []\<rparr> =
     (Err ''while running engine: attempted to build with scripts as non-root user or without --fakeroot'',
      \<lparr>trace = [NewBundle ''/out/rootfs-id'' [], RunPreScript ''/out/rootfs-id'',
                ConveyorGet ScratchConveyorPacker ''/out/rootfs-id'',
                ConveyorPack ScratchConveyorPacker ''/out/rootfs-id'',
                HandleBundle ''/out/rootfs-id''],
       dirs = {''/out/rootfs-id'', ''/bundle-temp-''}, removed = []\<rparr>)"
  by (simp add: Full_body_def Full_stage_def Full_bootstrap_cases Full_copy_def copyFiles_def
        Full_engine_def runBuildEngine_def engineRequired_def append_post_def privilege_error_def
        bcall_def Let_def example_env_def example_stage_def example_conf_def zero_Options_def
        scratch_def_def zero_Definition_def upt_rec)

text \<open>
  Claim C5. Let the caller's uid differ from 0 and let some stage's recipe require the
  engine (a non-empty setup, post or test script, or a file-copy directive). Then the engine
  step refuses with the privilege error at once, leaving the world as it was: it is tried
  once and nothing of the engine is started. \<^verbatim>\<open>Full\<close> does not succeed, its whole run
  contains no call of the engine (no configuration is marshalled, no starter is created or
  run), and the cleanup runs on the world the failure left: unless the no-cleanup option is
  set or a removal fails, no bundle directory remains. The pre-script hook of a stage is a
  stage method outside these sources; it is called before the engine step.
\<close>

theorem Full_unprivileged_engine:
  assumes "uid env \<noteq> 0" and "s \<in> set (stages b)" and "engineRequired (Recipe (stage_b s))"
  shows "runBuildEngine env (stage_b s) w0 = (Some privilege_error, w0)
    \<and> Full_engine env s w0 = (Err (''while running engine: '' @ privilege_error), w0)
    \<and> (\<forall>b'. fst (Full env b w) \<noteq> Ok b')
    \<and> (\<forall>c \<in> set (trace (snd (Full env b w))). engine_call c \<longrightarrow> c \<in> set (trace w))
    \<and> snd (Full env b w) = cleanUp env b (snd (Full_body env b w))
    \<and> (\<not> NoCleanUp (Conf b)
         \<and> logged_errors (snd (Full_body env b w)) (snd (Full env b w)) = [] \<longrightarrow>
       (\<forall>p \<in> set (bundlePaths b). p \<notin> dirs (snd (Full env b w))))"
proof (intro conjI impI allI)
  show "runBuildEngine env (stage_b s) w0 = (Some privilege_error, w0)"
    by (rule runBuildEngine_unprivileged [OF assms(1)])
  show "Full_engine env s w0 = (Err (''while running engine: '' @ privilege_error), w0)"
    by (rule Full_engine_unprivileged [OF assms(1,3)])
  show "fst (Full env b w) \<noteq> Ok b'" for b'
    by (rule Full_unprivileged [OF assms])
  show "\<forall>c \<in> set (trace (snd (Full env b w))). engine_call c \<longrightarrow> c \<in> set (trace w)"
    using no_engine_Full [OF assms(1), of w b] by (simp add: no_engine_def)
  show c: "snd (Full env b w) = cleanUp env b (snd (Full_body env b w))"
    by (cases "Full_body env b w") (simp add: Full_def)
  assume a: "\<not> NoCleanUp (Conf b)
         \<and> logged_errors (snd (Full_body env b w)) (snd (Full env b w)) = []"
  let ?w = "snd (Full_body env b w)"
  from a have nc: "\<not> NoCleanUp (Conf b)"
    and le: "logged_errors ?w (snd (Full env b w)) = []" by simp_all
  have cl: "snd (Full env b w) = cleanUp_loop env (stages b) ?w"
    using c nc by (simp add: cleanUp_def)
  from le have "logged_errors ?w (cleanUp_loop env (stages b) ?w) = []"
    unfolding cl .
  from cleanUp_loop_no_error [OF this]
  show "\<forall>p \<in> set (bundlePaths b). p \<notin> dirs (snd (Full env b w))"
    unfolding cl by (simp add: bundlePaths_def)
qed

theorem Full_unprivileged_engine_witness:
  "Full (example_env\<lparr>uid := 1000\<rparr>)
      \<lparr>stages = [((example_stage [] ''/out/rootfs-id'' ''/bundle-temp-'' (scratch_def\<lparr>Post := ''echo hi''\<rparr>) (zero_Options\<lparr>ImgCache := Some ''/cache''\<rparr>))\<lparr>stage_a := Some SandboxAssembler\<rparr>)],
        Conf = example_conf\<lparr>Opts := (zero_Options\<lparr>ImgCache := Some ''/cache''\<rparr>)\<rparr>\<rparr>
      \<lparr>trace = [NewBundle ''/out/rootfs-id'' []], dirs = {''/out/rootfs-id'', ''/bundle-temp-''}, removed = []\<rparr> =
     (Err ''while running engine: attempted to build with scripts as non-root user or without --fakeroot'',
      \<lparr>trace = [NewBundle ''/out/rootfs-id'' [], RunPreScript ''/out/rootfs-id'',
                ConveyorGet ScratchConveyorPacker ''/out/rootfs-id'',
                ConveyorPack ScratchConveyorPacker ''/out/rootfs-id'',
                HandleBundle ''/out/rootfs-id'',
                RemoveAll ''/out/rootfs-id'', RemoveAll ''/bundle-temp-''],
       dirs = {}, removed = [''/out/rootfs-id'', ''/bundle-temp-'']\<rparr>)"
proof -
  let ?env = "(example_env\<lparr>uid := 1000\<rparr>)"
  let ?s = "((example_stage [] ''/out/rootfs-id'' ''/bundle-temp-'' (scratch_def\<lparr>Post := ''echo hi''\<rparr>) (zero_Options\<lparr>ImgCache := Some ''/cache''\<rparr>))\<lparr>stage_a := Some SandboxAssembler\<rparr>)"
  let ?b = "\<lparr>stages = [((example_stage [] ''/out/rootfs-id'' ''/bundle-temp-'' (scratch_def\<lparr>Post := ''echo hi''\<rparr>) (zero_Options\<lparr>ImgCache := Some ''/cache''\<rparr>))\<lparr>stage_a := Some SandboxAssembler\<rparr>)],
        Conf = example_conf\<lparr>Opts := (zero_Options\<lparr>ImgCache := Some ''/cache''\<rparr>)\<rparr>\<rparr>"
  let ?w = "\<lparr>trace = [NewBundle ''/out/rootfs-id'' []], dirs = {''/out/rootfs-id'', ''/bundle-temp-''}, removed = []\<rparr>"
  have 1: "uid ?env \<noteq> 0" by (simp add: example_env_def)
  have 2: "?s \<in> set (stages ?b)" by simp
  have 3: "engineRequired (Recipe (stage_b ?s))"
    by (simp add: engineRequired_def example_stage_def)
  have 4: "cleanUp ?env ?b (snd (Full_body ?env ?b ?w)) =
      \<lparr>trace = [NewBundle ''/out/rootfs-id'' [], RunPreScript ''/out/rootfs-id'',
                ConveyorGet ScratchConveyorPacker ''/out/rootfs-id'',
                ConveyorPack ScratchConveyorPacker ''/out/rootfs-id'',
                HandleBundle ''/out/rootfs-id'',
                RemoveAll ''/out/rootfs-id'', RemoveAll ''/bundle-temp-''],
       dirs = {}, removed = [''/out/rootfs-id'', ''/bundle-temp-'']\<rparr>"
    unfolding Full_post_unprivileged_example
    by (simp add: cleanUp_def Bundle_Remove_def RemoveAll_dir_def bcall_def blog_def
          example_env_def example_stage_def example_conf_def)
  have 5: "fst (Full ?env ?b ?w) =
      Err ''while running engine: attempted to build with scripts as non-root user or without --fakeroot''"
    by (simp add: Full_def Full_post_unprivileged_example)
  from Full_unprivileged_engine [OF 1 2 3, of ?w ?w]
  have "snd (Full ?env ?b ?w) = cleanUp ?env ?b (snd (Full_body ?env ?b ?w))" by blast
  with 4 5 show ?thesis by (simp add: prod_eq_iff)
qed

text \<open>
  Claim C6. For each supported bootstrap key the dispatch returns the variant of that key
  (\<open>variant_table\<close> lists the fourteen keys with their variants); for the empty key, which
  is also what a nil header or a header without the key reads as, it fails with
  "no bootstrap specification found"; for any other key it fails with
  "invalid build source" followed by the key. The dispatch is a function of the definition
  and the flag only: it takes no file system and returns none.
\<close>

theorem getcp_dispatch:
  assumes "mapget (Header d) ''bootstrap'' = k"
  shows "((k, v) \<in> set (variant_table u) \<longrightarrow> getcp d l t u = Inr v)
       \<and> (k = [] \<longrightarrow> getcp d l t u = Inl ''no bootstrap specification found'')
       \<and> (k \<noteq> [] \<and> k \<notin> set bootstrap_keys \<longrightarrow>
            getcp d l t u = Inl (''invalid build source '' @ k))"
  using assms getcp_table getcp_empty getcp_other by blast

theorem getcp_dispatch_witness:
  "getcp (zero_Definition\<lparr>Header := Some [''bootstrap'' \<mapsto> ''docker'']\<rparr>) ''url'' ''tok'' False
     = Inr OCIConveyorPacker
   \<and> getcp (zero_Definition\<lparr>Header := Some [''bootstrap'' \<mapsto> ''library'']\<rparr>) ''url'' ''tok'' True
     = Inr (LibraryConveyorPacker True)
   \<and> getcp zero_Definition ''url'' ''tok'' False = Inl ''no bootstrap specification found''
   \<and> getcp (zero_Definition\<lparr>Header := Some [''bootstrap'' \<mapsto> ''Docker'']\<rparr>) ''url'' ''tok'' False
     = Inl ''invalid build source Docker''"
proof -
  have a: "mapget (Header (zero_Definition\<lparr>Header := Some [''bootstrap'' \<mapsto> ''docker'']\<rparr>))
             ''bootstrap'' = ''docker''"
    by (simp add: mapget_def)
  have b: "mapget (Header (zero_Definition\<lparr>Header := Some [''bootstrap'' \<mapsto> ''library'']\<rparr>))
             ''bootstrap'' = ''library''"
    by (simp add: mapget_def)
  have c: "mapget (Header zero_Definition) ''bootstrap'' = []"
    by (simp add: mapget_def zero_Definition_def)
  have e: "mapget (Header (zero_Definition\<lparr>Header := Some [''bootstrap'' \<mapsto> ''Docker'']\<rparr>))
             ''bootstrap'' = ''Docker''"
    by (simp add: mapget_def)
  have 1: "(''docker'', OCIConveyorPacker) \<in> set (variant_table False)"
    by (simp add: variant_table_def)
  have 2: "(''library'', LibraryConveyorPacker True) \<in> set (variant_table True)"
    by (simp add: variant_table_def)
  have 3: "''Docker'' \<noteq> [] \<and> ''Docker'' \<notin> set bootstrap_keys"
    by (simp add: bootstrap_keys_def)
  show ?thesis
    using getcp_dispatch [OF a, of OCIConveyorPacker False "''url''" "''tok''"] 1
          getcp_dispatch [OF b, of "LibraryConveyorPacker True" True "''url''" "''tok''"] 2
          getcp_dispatch [OF c, of ScratchConveyorPacker False "''url''" "''tok''"]
          getcp_dispatch [OF e, of ScratchConveyorPacker False "''url''" "''tok''"] 3
    by simp
qed

end
